theory Spec2Isabelle
  imports Complex_Main "HOL-Library.Multiset" "HOL-Library.Char_ord" "HOL-Library.List_Lexorder"
    "HOL-Library.Log_Nat"
begin

section \<open>Data model\<close>

text \<open>
  The notebook works on pandas data frames. A frame is modelled column-major: its row
  count and the ordered list of its columns, each a label with the list of its cells.
  Rows are identified by position; the row index of pandas is not modelled, so two objects
  are co-indexed when they have the same number of rows. The cell type is a parameter.
  Python floats are idealised as real numbers, with two exceptions: in \<open>normalize\<close> the
  special values of numpy matter and are modelled explicitly, and in
  \<open>imbalanced_subsample\<close> the product of the row count and the fraction is rounded to a
  double, as the machine does, because the number of rows drawn depends on it.

  The exceptions that the pandas, numpy and scikit-learn calls of the notebook can raise are
  values of \<open>error\<close>; a function that can raise returns \<open>error + 'a\<close>.
  The notebook itself has no \<^verbatim>\<open>raise\<close> statement.
\<close>

datatype error = KeyError | ValueError

record 'a frame =
  nrows :: nat
  cols :: "(string \<times> 'a list) list"

definition columns :: "'a frame \<Rightarrow> string list" where
  "columns fr = map fst (cols fr)"

definition column :: "'a frame \<Rightarrow> string \<Rightarrow> 'a list option" where
  "column fr c = map_of (cols fr) c"

text \<open>A well-formed frame has unique column labels and columns of \<open>nrows\<close> cells.\<close>

definition wf_frame :: "'a frame \<Rightarrow> bool" where
  "wf_frame fr \<longleftrightarrow>
     distinct (columns fr) \<and> list_all (\<lambda>p. length (snd p) = nrows fr) (cols fr)"

subsection \<open>SchemaAligner\<close>

text \<open>
  \<^verbatim>\<open>X_val.reindex(columns=new_columns, fill_value=0)\<close>: pandas returns a copy when the
  requested labels are the frame's own, refuses to reindex an axis with duplicate labels
  (ValueError), and otherwise builds the requested columns in the requested order, taking a
  column of the frame where the label exists and a column of \<open>fill_value\<close> where it does not.
\<close>

definition reindex_columns :: "'a frame \<Rightarrow> string list \<Rightarrow> 'a \<Rightarrow> error + 'a frame" where
  "reindex_columns fr new_columns fill_value =
     (if columns fr = new_columns then Inr fr
      else if \<not> distinct (columns fr) then Inl ValueError
      else Inr \<lparr>nrows = nrows fr,
                cols = map (\<lambda>c. (c, case column fr c of
                                        Some vs \<Rightarrow> vs
                                      | None \<Rightarrow> replicate (nrows fr) fill_value))
                           new_columns\<rparr>)"

definition missing_cat_add :: "('a::zero) frame \<Rightarrow> 'a frame \<Rightarrow> error + 'a frame" where
  "missing_cat_add X_train X_val = reindex_columns X_val (columns X_train) 0"

subsection \<open>Column assignment and removal\<close>

text \<open>
  \<^verbatim>\<open>df[c] = values\<close> replaces the cells of the column labelled \<open>c\<close> where it is,
  or appends a new column at the end when there is none. \<^verbatim>\<open>df.drop(c, axis=1)\<close>
  removes the column labelled \<open>c\<close> and raises KeyError when there is none.
\<close>

definition setitem :: "'a frame \<Rightarrow> string \<Rightarrow> 'a list \<Rightarrow> 'a frame" where
  "setitem fr c vs =
     (if c \<in> set (columns fr)
      then fr\<lparr>cols := map (\<lambda>p. if fst p = c then (c, vs) else p) (cols fr)\<rparr>
      else fr\<lparr>cols := cols fr @ [(c, vs)]\<rparr>)"

definition del_column :: "'a frame \<Rightarrow> string \<Rightarrow> 'a frame" where
  "del_column fr c = fr\<lparr>cols := filter (\<lambda>p. fst p \<noteq> c) (cols fr)\<rparr>"


subsection \<open>TimeDecoder\<close>

text \<open>
  Python's \<^verbatim>\<open>//\<close> and \<^verbatim>\<open>%\<close> on numbers round the quotient towards minus infinity.
  \<^verbatim>\<open>df_copy[col]=df[col]//100+(df[col]%100)/60\<close> reads the column of the frame passed in,
  not of the copy being built (KeyError when the column is missing).
\<close>

definition floordiv :: "real \<Rightarrow> real \<Rightarrow> real" where
  "floordiv x y = of_int \<lfloor>x / y\<rfloor>"

definition pymod :: "real \<Rightarrow> real \<Rightarrow> real" where
  "pymod x y = x - y * of_int \<lfloor>x / y\<rfloor>"

definition decimal_hour :: "real \<Rightarrow> real" where
  "decimal_hour v = floordiv v 100 + pymod v 100 / 60"

fun convert_hours_loop :: "real frame \<Rightarrow> string list \<Rightarrow> real frame \<Rightarrow> error + real frame" where
  "convert_hours_loop df [] df_copy = Inr df_copy"
| "convert_hours_loop df (col # rest) df_copy =
     (case column df col of
        None \<Rightarrow> Inl KeyError
      | Some vs \<Rightarrow> convert_hours_loop df rest (setitem df_copy col (map decimal_hour vs)))"

definition convert_hours :: "real frame \<Rightarrow> string list \<Rightarrow> error + real frame" where
  "convert_hours df hour_columns = convert_hours_loop df hour_columns df"

subsection \<open>CyclicalEncoder\<close>

text \<open>
  The dictionary \<^verbatim>\<open>col_name_maxval_dict\<close> is an association list with unique keys, in the
  dictionary's iteration order. Each turn of the loop reads the column from the copy being
  built, twice, stores the sine and the cosine under the labels \<^verbatim>\<open>'sin('+col+')'\<close> and
  \<^verbatim>\<open>'cos('+col+')'\<close>, and drops the column. A period of zero is outside the model:
  numpy divides by zero without raising and produces non-finite cells.
\<close>

definition sin_label :: "string \<Rightarrow> string" where
  "sin_label col = ''sin('' @ col @ '')''"

definition cos_label :: "string \<Rightarrow> string" where
  "cos_label col = ''cos('' @ col @ '')''"








subsection \<open>Subsampler\<close>

text \<open>
  Rows are selected by position: \<open>take_rows idx fr\<close> is the frame of the rows of \<open>fr\<close> at
  the positions \<open>idx\<close>, in that order.
\<close>

definition take_rows :: "nat list \<Rightarrow> 'a frame \<Rightarrow> 'a frame" where
  "take_rows idx fr = \<lparr>nrows = length idx, cols = map (\<lambda>p. (fst p, map (nth (snd p)) idx)) (cols fr)\<rparr>"

text \<open>
  Python's \<^verbatim>\<open>round\<close> rounds a half to the even neighbour; \<^verbatim>\<open>int\<close> truncates towards zero.
\<close>

definition py_round :: "real \<Rightarrow> int" where
  "py_round x =
     (let fl = \<lfloor>x\<rfloor>; d = x - of_int fl
      in if d < 1 / 2 then fl else if 1 / 2 < d then fl + 1 else if even fl then fl else fl + 1)"

definition py_int :: "real \<Rightarrow> int" where
  "py_int x = (if 0 \<le> x then \<lfloor>x\<rfloor> else \<lceil>x\<rceil>)"

text \<open>
  Double precision. \<open>binade x\<close> is the exponent of a positive \<open>x\<close>, the integer \<open>e\<close> with
  \<open>2\<^sup>e \<le> x < 2\<^sup>e\<^sup>+\<^sup>1\<close> (lemma \<open>binade_floor_log\<close>), and \<open>round_double x\<close> is the multiple
  of \<open>2\<^sup>e\<^sup>-\<^sup>5\<^sup>2\<close> nearest to \<open>x\<close>, a tie going to the even multiple: the double nearest to
  \<open>x\<close>, for magnitudes in the range of normal doubles. \<^verbatim>\<open>n*f\<close> with an integer \<open>n\<close> and a
  float \<open>f\<close> converts \<open>n\<close> to a double and rounds the product.
\<close>

definition binade :: "real \<Rightarrow> int" where
  "binade x = (if 1 \<le> x then bitlen \<lfloor>x\<rfloor> - 1 else - bitlen (\<lceil>1 / x\<rceil> - 1))"

definition round_double :: "real \<Rightarrow> real" where
  "round_double x =
     (if x = 0 then 0
      else let u = 2 powi (binade \<bar>x\<bar> - 52)
           in of_int (py_round (x / u)) * u)"

definition float_of_nat :: "nat \<Rightarrow> real" where
  "float_of_nat n = round_double (real n)"

definition float_mul :: "real \<Rightarrow> real \<Rightarrow> real" where
  "float_mul x y = round_double (x * y)"

text \<open>
  The pseudo-random generator is a parameter: \<open>rng n k\<close> is the list of the \<open>k\<close> positions
  that \<^verbatim>\<open>sample\<close> draws, without replacement, from a frame of \<open>n\<close> rows with the fixed seed
  \<^verbatim>\<open>random_state=0\<close>. All that is assumed of it is that it draws \<open>k\<close> distinct positions
  below \<open>n\<close>.
\<close>

definition valid_rng :: "(nat \<Rightarrow> nat \<Rightarrow> nat list) \<Rightarrow> bool" where
  "valid_rng rng \<longleftrightarrow>
     (\<forall>n k. k \<le> n \<longrightarrow> length (rng n k) = k \<and> distinct (rng n k) \<and> (\<forall>i \<in> set (rng n k). i < n))"

text \<open>
  \<^verbatim>\<open>X_copy=X.copy(); X_copy['y']=y\<close>: the frame with the labels stored as the column
  \<^verbatim>\<open>'y'\<close>. The assignment overwrites a column of that label if \<open>X\<close> has one, and the final
  \<^verbatim>\<open>samp.drop(['y'],axis=1)\<close> removes it, so the table is kept as the frame without
  \<^verbatim>\<open>'y'\<close> together with the label column. The label vector \<open>y\<close> is co-indexed with
  \<open>X\<close>: it has \<open>nrows X\<close> entries.
\<close>

record 'a labelled =
  feats :: "'a frame"
  ycol :: "bool list"

definition assign_y :: "'a frame \<Rightarrow> bool list \<Rightarrow> 'a labelled" where
  "assign_y X y = \<lparr>feats = del_column X ''y'', ycol = y\<rparr>"

definition select_rows :: "nat list \<Rightarrow> 'a labelled \<Rightarrow> 'a labelled" where
  "select_rows idx t = \<lparr>feats = take_rows idx (feats t), ycol = map (nth (ycol t)) idx\<rparr>"

text \<open>\<^verbatim>\<open>X_copy[X_copy['y']==b]\<close>: the rows whose label is \<open>b\<close>, in their order.\<close>

definition class_rows :: "bool \<Rightarrow> nat \<Rightarrow> bool list \<Rightarrow> nat list" where
  "class_rows b n y = filter (\<lambda>i. y ! i = b) [0..<n]"

definition mask_y :: "bool \<Rightarrow> 'a labelled \<Rightarrow> 'a labelled" where
  "mask_y b t = select_rows (class_rows b (nrows (feats t)) (ycol t)) t"

text \<open>
  \<^verbatim>\<open>sample(n=..)\<close> raises ValueError for a negative number of rows and for more rows than
  the frame has; \<^verbatim>\<open>sample(frac=..)\<close> draws \<^verbatim>\<open>round(frac * nrows)\<close> rows. That product is
  taken exactly here: its rounding can move the number of rows drawn by one, and has no part
  in which rows and labels are drawn together.
\<close>

definition sample_n :: "(nat \<Rightarrow> nat \<Rightarrow> nat list) \<Rightarrow> int \<Rightarrow> 'a labelled \<Rightarrow> error + 'a labelled" where
  "sample_n rng n t =
     (if n < 0 then Inl ValueError
      else if int (nrows (feats t)) < n then Inl ValueError
      else Inr (select_rows (rng (nrows (feats t)) (nat n)) t))"

definition sample_frac :: "(nat \<Rightarrow> nat \<Rightarrow> nat list) \<Rightarrow> real \<Rightarrow> 'a labelled \<Rightarrow> error + 'a labelled" where
  "sample_frac rng fraction t = sample_n rng (py_round (fraction * real (nrows (feats t)))) t"

text \<open>
  \<^verbatim>\<open>samp_T.append(samp_F)\<close>: the rows of the second table after the rows of the first.
  Both tables have the columns of \<^verbatim>\<open>X_copy\<close>.
\<close>

definition append_rows :: "'a labelled \<Rightarrow> 'a labelled \<Rightarrow> 'a labelled" where
  "append_rows a b =
     \<lparr>feats = \<lparr>nrows = nrows (feats a) + nrows (feats b),
               cols = map2 (\<lambda>p q. (fst p, snd p @ snd q)) (cols (feats a)) (cols (feats b))\<rparr>,
      ycol = ycol a @ ycol b\<rparr>"

definition rand_subset ::
  "(nat \<Rightarrow> nat \<Rightarrow> nat list) \<Rightarrow> 'a frame \<Rightarrow> bool list \<Rightarrow> real \<Rightarrow> error + 'a frame \<times> bool list" where
  "rand_subset rng X y subset_frac =
     (if subset_frac < 1 then
        let X_copy = assign_y X y in
        (case sample_frac rng subset_frac X_copy of
           Inl e \<Rightarrow> Inl e
         | Inr samp \<Rightarrow> Inr (feats samp, ycol samp))
      else Inr (X, y))"

definition imbalanced_subsample ::
  "(nat \<Rightarrow> nat \<Rightarrow> nat list) \<Rightarrow> 'a frame \<Rightarrow> bool list \<Rightarrow> real \<Rightarrow> error + 'a frame \<times> bool list" where
  "imbalanced_subsample rng X y subset_frac =
     (if subset_frac < 1 then
        let X_copy = assign_y X y;
            X_copy_T = mask_y True X_copy;
            X_copy_F = mask_y False X_copy;
            num_samp = float_mul (float_of_nat (nrows (feats X_copy))) subset_frac
        in
        (case (if floordiv num_samp 2 \<le> real (nrows (feats X_copy_T))
               then sample_n rng (py_int (floordiv num_samp 2)) X_copy_T
               else Inr X_copy_T) of
           Inl e \<Rightarrow> Inl e
         | Inr samp_T \<Rightarrow>
             (case (if floordiv num_samp 2 \<le> real (nrows (feats X_copy_F))
                    then sample_n rng (py_int (floordiv num_samp 2)) X_copy_F
                    else Inr X_copy_F) of
                Inl e \<Rightarrow> Inl e
              | Inr samp_F \<Rightarrow>
                  let samp = append_rows samp_T samp_F in
                  Inr (feats samp, ycol samp)))
      else Inr (X, y))"

text \<open>
  The positions of \<open>X\<close> that \<open>imbalanced_subsample\<close> returns: the draw from the rows
  labelled true, then the draw from the rows labelled false.
\<close>

definition class_draw :: "(nat \<Rightarrow> nat \<Rightarrow> nat list) \<Rightarrow> nat \<Rightarrow> nat list \<Rightarrow> nat list" where
  "class_draw rng h pos = (if h \<le> length pos then map (nth pos) (rng (length pos) h) else pos)"

definition drawn_rows :: "(nat \<Rightarrow> nat \<Rightarrow> nat list) \<Rightarrow> nat \<Rightarrow> real \<Rightarrow> bool list \<Rightarrow> nat list" where
  "drawn_rows rng n f y =
     class_draw rng (nat \<lfloor>float_mul (float_of_nat n) f / 2\<rfloor>) (class_rows True n y)
     @ class_draw rng (nat \<lfloor>float_mul (float_of_nat n) f / 2\<rfloor>) (class_rows False n y)"

text \<open>
  The output \<open>res\<close> of a subsampler is row-aligned with its input: it is a frame and a
  label vector of the same number of rows, made of the rows of \<open>X\<close> (without the column
  \<^verbatim>\<open>'y'\<close> when a sample was drawn) and the entries of \<open>y\<close> at the same positions.
\<close>

definition aligned_subset ::
  "real \<Rightarrow> 'a frame \<Rightarrow> bool list \<Rightarrow> error + 'a frame \<times> bool list \<Rightarrow> bool" where
  "aligned_subset f X y res \<longleftrightarrow>
     (\<exists>Xs ys idx. res = Inr (Xs, ys)
        \<and> nrows Xs = length ys
        \<and> distinct idx \<and> (\<forall>i \<in> set idx. i < nrows X)
        \<and> Xs = take_rows idx (if f < 1 then del_column X ''y'' else X)
        \<and> ys = map (nth y) idx)"

text \<open>The numbers of true and of false labels that a subsampler returns.\<close>

definition label_counts :: "error + 'a frame \<times> bool list \<Rightarrow> (nat \<times> nat) option" where
  "label_counts res =
     (case res of
        Inl e \<Rightarrow> None
      | Inr p \<Rightarrow> Some (count_list (snd p) True, count_list (snd p) False))"

text \<open>A generator for concrete runs: the last \<open>k\<close> rows, last row first.\<close>

definition rev_rows :: "nat \<Rightarrow> nat \<Rightarrow> nat list" where
  "rev_rows n k = rev [n - k..<n]"

subsection \<open>AirportSelector\<close>

text \<open>
  Of a flight record, \<open>airport_select\<close> reads the columns \<^verbatim>\<open>Origin\<close> and \<^verbatim>\<open>Dest\<close>.
  A series is the list of its (label, value) entries in index order.
\<close>

record flight =
  Origin :: string
  Dest :: string

text \<open>
  \<^verbatim>\<open>df.groupby([key]).size()\<close>: one entry per distinct key, in ascending key order, with the
  number of rows of that key.
\<close>

definition groupby_size :: "string list \<Rightarrow> (string \<times> nat) list" where
  "groupby_size ks = map (\<lambda>k. (k, count_list ks k)) (sort (remdups ks))"

text \<open>
  \<^verbatim>\<open>arrivals+departures\<close> aligns the two series on their labels: the result is indexed by
  the union of the labels (sorted, unless the two indexes are equal), and the sum is NaN,
  here \<open>None\<close>, at a label that one of the series lacks.
\<close>

definition series_add :: "(string \<times> nat) list \<Rightarrow> (string \<times> nat) list \<Rightarrow> (string \<times> nat option) list" where
  "series_add a d =
     (let idx = (if map fst a = map fst d then map fst a
                 else sort (remdups (map fst a @ map fst d)))
      in map (\<lambda>k. (k, case (map_of a k, map_of d k) of
                         (Some x, Some y) \<Rightarrow> Some (x + y)
                       | _ \<Rightarrow> None)) idx)"

text \<open>
  \<^verbatim>\<open>sort_values(ascending=False)\<close> sorts the entries that are not NaN by descending value and
  puts the NaN entries last, in their order. The sort is pandas' default quicksort; it is a
  parameter \<open>srt\<close>, of which \<open>sorts_descending\<close> states what is assumed: it permutes its
  input into descending order of value.
\<close>

fun notna :: "(string \<times> nat option) list \<Rightarrow> (string \<times> nat) list" where
  "notna [] = []"
| "notna ((k, None) # s) = notna s"
| "notna ((k, Some v) # s) = (k, v) # notna s"

definition sorts_descending :: "((string \<times> nat) list \<Rightarrow> (string \<times> nat) list) \<Rightarrow> bool" where
  "sorts_descending srt \<longleftrightarrow>
     (\<forall>xs. mset (srt xs) = mset xs \<and> sorted_wrt (\<lambda>a b. snd b \<le> snd a) (srt xs))"

definition sort_values_desc ::
  "((string \<times> nat) list \<Rightarrow> (string \<times> nat) list) \<Rightarrow> (string \<times> nat option) list
     \<Rightarrow> (string \<times> nat option) list" where
  "sort_values_desc srt s =
     map (\<lambda>p. (fst p, Some (snd p))) (srt (notna s)) @ filter (\<lambda>p. snd p = None) s"

text \<open>\<^verbatim>\<open>[:num_airports]\<close> is a slice: past the end of the series it stops at the end.\<close>

definition airport_select ::
  "((string \<times> nat) list \<Rightarrow> (string \<times> nat) list) \<Rightarrow> flight list \<Rightarrow> nat \<Rightarrow> string list" where
  "airport_select srt df num_airports =
     (let arrivals = groupby_size (map Dest df);
          departures = groupby_size (map Origin df);
          flights = series_add arrivals departures
      in map fst (take num_airports (sort_values_desc srt flights)))"

text \<open>
  The distinct airports of a table, and the combined number of occurrences of an airport as
  origin or destination.
\<close>

definition airports :: "flight list \<Rightarrow> string list" where
  "airports df = remdups (map Origin df @ map Dest df)"

definition occurrences :: "flight list \<Rightarrow> string \<Rightarrow> nat" where
  "occurrences df a = count_list (map Origin df) a + count_list (map Dest df) a"

text \<open>
  A sort for concrete runs: by descending value, entries of equal value staying in their
  input order.
\<close>

definition stable_descending_sort :: "(string \<times> nat) list \<Rightarrow> (string \<times> nat) list" where
  "stable_descending_sort xs = rev (sort_key snd (rev xs))"

subsection \<open>Normalizer\<close>

text \<open>
  The cells of the frames that \<open>normalize\<close> works on are floats with the special values of
  numpy: a finite value, the two infinities, or NaN. \<^verbatim>\<open>np.log\<close> raises no exception: it
  returns minus infinity at zero and NaN at a negative value (with a warning).
\<close>

datatype xfloat = Fin real | PosInf | NegInf | NaN

fun np_log :: "xfloat \<Rightarrow> xfloat" where
  "np_log (Fin x) = (if 0 < x then Fin (ln x) else if x = 0 then NegInf else NaN)"
| "np_log PosInf = PosInf"
| "np_log NegInf = NaN"
| "np_log NaN = NaN"

text \<open>
  \<^verbatim>\<open>X.loc[:,keys]\<close> selects the columns labelled \<open>keys\<close>, in that order, and raises KeyError
  when a label is missing. \<^verbatim>\<open>X[keys]=values\<close> assigns the columns of \<open>values\<close>, by position,
  to the labels \<open>keys\<close>.
\<close>

definition loc_columns :: "'a frame \<Rightarrow> string list \<Rightarrow> error + 'a frame" where
  "loc_columns fr keys =
     (if set keys \<subseteq> set (columns fr)
      then Inr \<lparr>nrows = nrows fr,
                cols = map (\<lambda>k. (k, case column fr k of Some vs \<Rightarrow> vs | None \<Rightarrow> [])) keys\<rparr>
      else Inl KeyError)"

definition setitem_columns :: "'a frame \<Rightarrow> string list \<Rightarrow> (string \<times> 'a list) list \<Rightarrow> 'a frame" where
  "setitem_columns fr keys new_cols = foldl (\<lambda>f p. setitem f (fst p) (snd (snd p))) fr (zip keys new_cols)"

definition map_cells :: "('a \<Rightarrow> 'b) \<Rightarrow> 'a frame \<Rightarrow> 'b frame" where
  "map_cells g fr = \<lparr>nrows = nrows fr, cols = map (\<lambda>p. (fst p, map g (snd p))) (cols fr)\<rparr>"

text \<open>
  scikit-learn's \<^verbatim>\<open>StandardScaler\<close>. Its input validation raises ValueError for an
  infinite cell, for a frame without rows and for one without columns; NaN is accepted and
  treated as a missing value: left out of the mean and the standard deviation of its column
  when fitting, and kept when transforming. A standard deviation of zero is replaced by one.
  The fitted attributes \<^verbatim>\<open>mean_\<close> and \<^verbatim>\<open>scale_\<close> are the fields of \<open>scaler\<close>.
\<close>

record scaler =
  scaler_mean :: "xfloat list"
  scaler_scale :: "xfloat list"

definition check_array :: "xfloat frame \<Rightarrow> error + unit" where
  "check_array fr =
     (if list_ex (\<lambda>p. PosInf \<in> set (snd p) \<or> NegInf \<in> set (snd p)) (cols fr) then Inl ValueError
      else if nrows fr = 0 \<or> cols fr = [] then Inl ValueError
      else Inr ())"

fun finite_values :: "xfloat list \<Rightarrow> real list" where
  "finite_values [] = []"
| "finite_values (Fin x # vs) = x # finite_values vs"
| "finite_values (v # vs) = finite_values vs"

definition column_mean :: "xfloat list \<Rightarrow> xfloat" where
  "column_mean vs =
     (let fs = finite_values vs
      in if fs = [] then NaN else Fin (sum_list fs / real (length fs)))"

definition column_scale :: "xfloat list \<Rightarrow> xfloat" where
  "column_scale vs =
     (let fs = finite_values vs
      in if fs = [] then NaN
         else let m = sum_list fs / real (length fs);
                  var = sum_list (map (\<lambda>x. (x - m)\<^sup>2) fs) / real (length fs);
                  s = sqrt var
              in Fin (if s = 0 then 1 else s))"

fun scale_value :: "xfloat \<Rightarrow> xfloat \<Rightarrow> xfloat \<Rightarrow> xfloat" where
  "scale_value (Fin m) (Fin s) (Fin x) = Fin ((x - m) / s)"
| "scale_value m s v = NaN"

definition transform :: "scaler \<Rightarrow> xfloat frame \<Rightarrow> error + xfloat frame" where
  "transform sc fr =
     (case check_array fr of
        Inl e \<Rightarrow> Inl e
      | Inr _ \<Rightarrow>
          if length (cols fr) \<noteq> length (scaler_mean sc) then Inl ValueError
          else Inr \<lparr>nrows = nrows fr,
                    cols = map (\<lambda>(p, m, s). (fst p, map (scale_value m s) (snd p)))
                               (zip (cols fr) (zip (scaler_mean sc) (scaler_scale sc)))\<rparr>)"

definition fit_transform :: "xfloat frame \<Rightarrow> error + scaler \<times> xfloat frame" where
  "fit_transform fr =
     (case check_array fr of
        Inl e \<Rightarrow> Inl e
      | Inr _ \<Rightarrow>
          let sc = \<lparr>scaler_mean = map (\<lambda>p. column_mean (snd p)) (cols fr),
                    scaler_scale = map (\<lambda>p. column_scale (snd p)) (cols fr)\<rparr>
          in (case transform sc fr of Inl e \<Rightarrow> Inl e | Inr out \<Rightarrow> Inr (sc, out)))"

definition normalize ::
  "xfloat frame \<Rightarrow> xfloat frame \<Rightarrow> string list \<Rightarrow> string list
     \<Rightarrow> error + xfloat frame \<times> xfloat frame \<times> scaler" where
  "normalize X_train X_val X_vars_normalize X_vars_log =
     (case loc_columns X_train X_vars_normalize of Inl e \<Rightarrow> Inl e | Inr train_to_scale \<Rightarrow>
      case loc_columns X_val X_vars_normalize of Inl e \<Rightarrow> Inl e | Inr val_to_scale \<Rightarrow>
      case loc_columns train_to_scale X_vars_log of Inl e \<Rightarrow> Inl e | Inr train_to_log \<Rightarrow>
      case loc_columns val_to_scale X_vars_log of Inl e \<Rightarrow> Inl e | Inr val_to_log \<Rightarrow>
      case fit_transform
             (setitem_columns train_to_scale X_vars_log (cols (map_cells np_log train_to_log))) of
        Inl e \<Rightarrow> Inl e
      | Inr (scaler, train_scaled) \<Rightarrow>
          let X_train_out = setitem_columns X_train X_vars_normalize (cols train_scaled) in
          (case transform scaler
                  (setitem_columns val_to_scale X_vars_log (cols (map_cells np_log val_to_log))) of
             Inl e \<Rightarrow> Inl e
           | Inr val_scaled \<Rightarrow>
               let X_val_out = setitem_columns X_val X_vars_normalize (cols val_scaled) in
               Inr (X_train_out, X_val_out, scaler)))"

section \<open>Properties\<close>

subsection \<open>Frames\<close>

lemma column_None_iff: "column fr c = None \<longleftrightarrow> c \<notin> set (columns fr)"
  by (simp add: column_def columns_def map_of_eq_None_iff)

lemma column_reindexed:
  "c \<in> set cs \<Longrightarrow>
   map_of (map (\<lambda>c. (c, f c)) cs) c = Some (f c)"
  by (induction cs) auto

subsection \<open>SchemaAligner\<close>

text \<open>
  C1. For a target frame with unique column labels, \<open>missing_cat_add\<close> returns a frame
  whose column list is the reference's column list, in the same order; a reference column
  that the target lacks is present and all zero; a target column that the reference lacks
  is not in the output.
\<close>

theorem missing_cat_add_columns:
  assumes "distinct (columns X_val)"
  shows "\<exists>out. missing_cat_add X_train X_val = Inr out
      \<and> columns out = columns X_train
      \<and> (\<forall>c \<in> set (columns X_train). c \<notin> set (columns X_val) \<longrightarrow>
            column out c = Some (replicate (nrows X_val) 0))
      \<and> (\<forall>c \<in> set (columns X_val). c \<notin> set (columns X_train) \<longrightarrow>
            c \<notin> set (columns out))"
proof (cases "columns X_val = columns X_train")
  case True
  then show ?thesis
    by (simp add: missing_cat_add_def reindex_columns_def)
next
  case False
  let ?out = "\<lparr>nrows = nrows X_val,
               cols = map (\<lambda>c. (c, case column X_val c of
                                       Some vs \<Rightarrow> vs
                                     | None \<Rightarrow> replicate (nrows X_val) 0))
                          (columns X_train)\<rparr>"
  have res: "missing_cat_add X_train X_val = Inr ?out"
    using False assms by (simp add: missing_cat_add_def reindex_columns_def)
  have cs: "columns ?out = columns X_train"
    by (simp add: columns_def comp_def)
  have zero: "column ?out c = Some (replicate (nrows X_val) 0)"
    if "c \<in> set (columns X_train)" "c \<notin> set (columns X_val)" for c
  proof -
    from that(2) have "column X_val c = None"
      by (simp add: column_None_iff)
    with that(1) show ?thesis
      by (simp add: column_def [of ?out] column_reindexed)
  qed
  from res cs zero show ?thesis
    by auto
qed

theorem missing_cat_add_columns_witness:
  "distinct (columns \<lparr>nrows = 2, cols = [(''Origin_ATL'', [1, 0 :: int]), (''Origin_XNA'', [0, 1])]\<rparr>)
   \<and> missing_cat_add
        \<lparr>nrows = 1, cols = [(''Origin_ATL'', [1 :: int]), (''Origin_BOS'', [0])]\<rparr>
        \<lparr>nrows = 2, cols = [(''Origin_ATL'', [1, 0]), (''Origin_XNA'', [0, 1])]\<rparr>
     = Inr \<lparr>nrows = 2, cols = [(''Origin_ATL'', [1, 0]), (''Origin_BOS'', [0, 0])]\<rparr>"
  using missing_cat_add_columns
    [of "\<lparr>nrows = 2, cols = [(''Origin_ATL'', [1, 0 :: int]), (''Origin_XNA'', [0, 1])]\<rparr>"
        "\<lparr>nrows = 1, cols = [(''Origin_ATL'', [1 :: int]), (''Origin_BOS'', [0])]\<rparr>"]
  by (simp add: missing_cat_add_def reindex_columns_def columns_def column_def numeral_2_eq_2)

text \<open>
  C10. For a target frame with unique column labels, \<open>missing_cat_add\<close> keeps the
  target's row count, and every column that reference and target share has the target's
  cells, unchanged and in the same order.
\<close>

theorem missing_cat_add_keeps_cells:
  assumes "distinct (columns X_val)"
  shows "\<exists>out. missing_cat_add X_train X_val = Inr out
      \<and> nrows out = nrows X_val
      \<and> (\<forall>c \<in> set (columns X_train) \<inter> set (columns X_val). column out c = column X_val c)"
proof (cases "columns X_val = columns X_train")
  case True
  then show ?thesis
    by (simp add: missing_cat_add_def reindex_columns_def)
next
  case False
  let ?out = "\<lparr>nrows = nrows X_val,
               cols = map (\<lambda>c. (c, case column X_val c of
                                       Some vs \<Rightarrow> vs
                                     | None \<Rightarrow> replicate (nrows X_val) 0))
                          (columns X_train)\<rparr>"
  have res: "missing_cat_add X_train X_val = Inr ?out"
    using False assms by (simp add: missing_cat_add_def reindex_columns_def)
  have same: "column ?out c = column X_val c"
    if "c \<in> set (columns X_train)" "c \<in> set (columns X_val)" for c
  proof -
    from that(2) obtain vs where "column X_val c = Some vs"
      using column_None_iff [of X_val c] by auto
    with that(1) show ?thesis
      by (simp add: column_def [of ?out] column_reindexed)
  qed
  from res same show ?thesis
    by auto
qed

theorem missing_cat_add_keeps_cells_witness:
  "distinct (columns \<lparr>nrows = 2, cols = [(''Origin_XNA'', [0, 1 :: int]), (''Origin_ATL'', [1, 0])]\<rparr>)
   \<and> missing_cat_add
        \<lparr>nrows = 1, cols = [(''Origin_ATL'', [1 :: int]), (''Origin_BOS'', [0])]\<rparr>
        \<lparr>nrows = 2, cols = [(''Origin_XNA'', [0, 1]), (''Origin_ATL'', [1, 0])]\<rparr>
     = Inr \<lparr>nrows = 2, cols = [(''Origin_ATL'', [1, 0]), (''Origin_BOS'', [0, 0])]\<rparr>"
  using missing_cat_add_keeps_cells
    [of "\<lparr>nrows = 2, cols = [(''Origin_XNA'', [0, 1 :: int]), (''Origin_ATL'', [1, 0])]\<rparr>"
        "\<lparr>nrows = 1, cols = [(''Origin_ATL'', [1 :: int]), (''Origin_BOS'', [0])]\<rparr>"]
  by (simp add: missing_cat_add_def reindex_columns_def columns_def column_def numeral_2_eq_2)

subsection \<open>Column assignment and removal\<close>

lemma map_of_replace:
  "map_of (map (\<lambda>p. if fst p = c then (c, vs) else p) xs) k =
     (if k = c then (if c \<in> fst ` set xs then Some vs else None) else map_of xs k)"
  by (induction xs) force+

lemma column_setitem: "column (setitem fr c vs) k = (if k = c then Some vs else column fr k)"
proof (cases "c \<in> fst ` set (cols fr)")
  case True
  then show ?thesis
    by (simp add: setitem_def column_def columns_def map_of_replace)
next
  case False
  then have "map_of (cols fr) c = None"
    by (simp add: map_of_eq_None_iff)
  with False show ?thesis
    by (simp add: setitem_def column_def columns_def map_add_def split: option.splits)
qed


subsection \<open>TimeDecoder\<close>

lemma decimal_hour_of_int:
  "decimal_hour (of_int n) = of_int (n div 100) + of_int (n mod 100) / 60"
proof -
  have fl: "\<lfloor>(of_int n :: real) / 100\<rfloor> = n div 100"
    using floor_divide_of_int_eq [of n 100, where ?'a = real] by simp
  have "(of_int n :: real) = of_int (100 * (n div 100)) + of_int (n mod 100)"
    by (metis of_int_add mult_div_mod_eq)
  then have "(of_int n :: real) - 100 * of_int (n div 100) = of_int (n mod 100)"
    by simp
  with fl show ?thesis
    by (simp add: decimal_hour_def floordiv_def pymod_def)
qed

lemma convert_hours_loop_column:
  "set hs \<subseteq> set (columns df) \<Longrightarrow>
   \<exists>out. convert_hours_loop df hs df_copy = Inr out
     \<and> (\<forall>c. column out c =
           (if c \<in> set hs then map_option (map decimal_hour) (column df c)
            else column df_copy c))"
proof (induction hs arbitrary: df_copy)
  case Nil
  then show ?case by simp
next
  case (Cons h hs)
  from Cons.prems obtain vs where vs: "column df h = Some vs"
    using column_None_iff [of df h] by auto
  from Cons.prems have "set hs \<subseteq> set (columns df)"
    by simp
  from Cons.IH [OF this, of "setitem df_copy h (map decimal_hour vs)"]
  obtain out where out: "convert_hours_loop df hs (setitem df_copy h (map decimal_hour vs)) = Inr out"
    and cs: "\<And>c. column out c =
           (if c \<in> set hs then map_option (map decimal_hour) (column df c)
            else column (setitem df_copy h (map decimal_hour vs)) c)"
    by blast
  have "convert_hours_loop df (h # hs) df_copy = Inr out"
    using vs out by simp
  moreover have "column out c =
           (if c \<in> set (h # hs) then map_option (map decimal_hour) (column df c)
            else column df_copy c)" for c
    using cs [of c] vs by (simp add: column_setitem)
  ultimately show ?case
    by blast
qed

text \<open>
  C6. When every designated time column exists in the frame, \<open>convert_hours\<close> returns a
  frame in which a cell of a designated column that held the packed integer \<open>n\<close> holds
  \<open>n div 100 + (n mod 100) / 60\<close>.
\<close>

theorem convert_hours_value:
  assumes "set hour_columns \<subseteq> set (columns df)"
    and "c \<in> set hour_columns"
    and "column df c = Some vs"
    and "i < length vs"
    and "vs ! i = of_int n"
  shows "\<exists>out ws. convert_hours df hour_columns = Inr out
      \<and> column out c = Some ws \<and> length ws = length vs
      \<and> ws ! i = of_int (n div 100) + of_int (n mod 100) / 60"
proof -
  from convert_hours_loop_column [OF assms(1), of df]
  obtain out where out: "convert_hours df hour_columns = Inr out"
    and cs: "column out c = map_option (map decimal_hour) (column df c)"
    using assms(2) by (auto simp: convert_hours_def)
  from cs assms(3) have "column out c = Some (map decimal_hour vs)"
    by simp
  moreover have "map decimal_hour vs ! i = of_int (n div 100) + of_int (n mod 100) / 60"
    using assms(4,5) by (simp add: decimal_hour_of_int)
  ultimately show ?thesis
    using out by auto
qed

theorem convert_hours_value_witness:
  "set [''CRSDepTime''] \<subseteq>
     set (columns \<lparr>nrows = 3, cols = [(''CRSDepTime'', [1415, 0, 2359 :: real])]\<rparr>)
   \<and> column \<lparr>nrows = 3, cols = [(''CRSDepTime'', [1415, 0, 2359 :: real])]\<rparr> ''CRSDepTime''
       = Some [1415, 0, 2359]
   \<and> [1415, 0, 2359 :: real] ! 2 = of_int 2359
   \<and> convert_hours \<lparr>nrows = 3, cols = [(''CRSDepTime'', [1415, 0, 2359])]\<rparr> [''CRSDepTime'']
       = Inr \<lparr>nrows = 3, cols = [(''CRSDepTime'', [14.25, 0, 23 + 59 / 60])]\<rparr>"
  using convert_hours_value
    [of "[''CRSDepTime'']" "\<lparr>nrows = 3, cols = [(''CRSDepTime'', [1415, 0, 2359 :: real])]\<rparr>"
        "''CRSDepTime''" "[1415, 0, 2359]" 2 2359]
  by (simp add: convert_hours_def column_def columns_def setitem_def decimal_hour_def
      floordiv_def pymod_def)


subsection \<open>CyclicalEncoder\<close>







lemma sin_label_inj [simp]: "sin_label a = sin_label b \<longleftrightarrow> a = b"
  by (simp add: sin_label_def)

lemma cos_label_inj [simp]: "cos_label a = cos_label b \<longleftrightarrow> a = b"
  by (simp add: cos_label_def)

lemma sin_label_not_cos_label [simp]: "sin_label a \<noteq> cos_label b" "cos_label b \<noteq> sin_label a"
  by (simp_all add: sin_label_def cos_label_def)

lemma sin_label_not_self [simp]: "sin_label a \<noteq> a" "a \<noteq> sin_label a"
proof -
  have "length (sin_label a) \<noteq> length a"
    by (simp add: sin_label_def)
  then show "sin_label a \<noteq> a" "a \<noteq> sin_label a"
    by auto
qed

lemma cos_label_not_self [simp]: "cos_label a \<noteq> a" "a \<noteq> cos_label a"
proof -
  have "length (cos_label a) \<noteq> length a"
    by (simp add: cos_label_def)
  then show "cos_label a \<noteq> a" "a \<noteq> cos_label a"
    by auto
qed







subsection \<open>Subsampler\<close>

lemma nrows_take_rows [simp]: "nrows (take_rows idx fr) = length idx"
  by (simp add: take_rows_def)

lemma nrows_del_column [simp]: "nrows (del_column fr c) = nrows fr"
  by (simp add: del_column_def)

lemma take_rows_take_rows:
  assumes "\<forall>i \<in> set r. i < length pos"
  shows "take_rows r (take_rows pos fr) = take_rows (map (nth pos) r) fr"
proof -
  have "map (nth (map (nth vs) pos)) r = map (nth vs) (map (nth pos) r)" for vs :: "'a list"
    using assms by simp
  then show ?thesis
    by (simp add: take_rows_def)
qed

lemma select_rows_select_rows:
  assumes "\<forall>i \<in> set r. i < length pos"
  shows "select_rows r (select_rows pos t) = select_rows (map (nth pos) r) t"
proof -
  have "map (nth (map (nth (ycol t)) pos)) r = map (nth (ycol t)) (map (nth pos) r)"
    using assms by simp
  then show ?thesis
    using assms by (simp add: select_rows_def take_rows_take_rows)
qed

lemma map2_same: "map2 h (map f cs) (map g cs) = map (\<lambda>c. h (f c) (g c)) cs"
  by (induction cs) auto

lemma append_rows_select_rows:
  "append_rows (select_rows a t) (select_rows b t) = select_rows (a @ b) t"
  by (simp add: append_rows_def select_rows_def take_rows_def map2_same)

lemma class_rows_props:
  "distinct (class_rows b n y)"
  "i \<in> set (class_rows b n y) \<Longrightarrow> i < n \<and> y ! i = b"
  by (auto simp: class_rows_def)

lemma count_list_filter: "length (filter (\<lambda>v. v = b) y) = count_list y b"
  by (induction y) auto

lemma length_class_rows:
  "length (class_rows b (length y) y) = count_list y b"
proof -
  have "filter (\<lambda>v. v = b) (map (nth y) [0..<length y]) =
        map (nth y) (filter (\<lambda>i. y ! i = b) [0..<length y])"
    by (simp add: filter_map comp_def)
  then have "length (filter (\<lambda>v. v = b) y) = length (filter (\<lambda>i. y ! i = b) [0..<length y])"
    by (simp add: map_nth)
  then show ?thesis
    by (simp only: class_rows_def count_list_filter)
qed

lemma class_draw_props:
  assumes "valid_rng rng" and "distinct pos"
  shows "distinct (class_draw rng h pos)"
    and "set (class_draw rng h pos) \<subseteq> set pos"
    and "length (class_draw rng h pos) = min (length pos) h"
proof -
  show "length (class_draw rng h pos) = min (length pos) h"
    using assms(1) by (simp add: class_draw_def valid_rng_def)
  show "set (class_draw rng h pos) \<subseteq> set pos"
    using assms(1) by (auto simp: class_draw_def valid_rng_def)
  show "distinct (class_draw rng h pos)"
  proof (cases "h \<le> length pos")
    case True
    with assms(1) have d: "distinct (rng (length pos) h)"
      and b: "\<forall>i \<in> set (rng (length pos) h). i < length pos"
      by (simp_all add: valid_rng_def)
    from assms(2) b have "inj_on (nth pos) (set (rng (length pos) h))"
      by (simp add: inj_on_nth)
    with d True show ?thesis
      by (simp add: class_draw_def distinct_map)
  next
    case False
    with assms(2) show ?thesis
      by (simp add: class_draw_def)
  qed
qed

lemma valid_rng_rev_rows: "valid_rng rev_rows"
  by (auto simp: valid_rng_def rev_rows_def)

lemma py_round_nonneg: "0 \<le> x \<Longrightarrow> 0 \<le> py_round x"
  by (simp add: py_round_def Let_def)

lemma py_round_le:
  assumes "x \<le> real n"
  shows "py_round x \<le> int n"
proof -
  have fl: "\<lfloor>x\<rfloor> \<le> int n"
    using assms by (simp add: floor_le_iff)
  show ?thesis
  proof (cases "x - of_int \<lfloor>x\<rfloor> < 1 / 2")
    case True
    with fl show ?thesis
      by (simp add: py_round_def Let_def)
  next
    case False
    then have "of_int \<lfloor>x\<rfloor> < x"
      by linarith
    with assms have "real_of_int \<lfloor>x\<rfloor> < real n"
      by linarith
    then have "\<lfloor>x\<rfloor> < int n"
      by linarith
    then show ?thesis
      by (simp add: py_round_def Let_def)
  qed
qed

lemma bitlen_pos_split:
  assumes "0 < m"
  obtains K :: nat where "bitlen m = int K + 1" and "2 ^ K \<le> m" and "m < 2 ^ (K + 1)"
proof -
  from assms have b: "1 \<le> bitlen m"
    by (simp add: bitlen_alt_def)
  define K where "K = nat (bitlen m - 1)"
  from b have k: "bitlen m = int K + 1"
    by (simp add: K_def)
  from b have n: "nat (bitlen m) = K + 1"
    by (simp add: K_def nat_diff_distrib)
  from bitlen_bounds [OF assms] have "2 ^ K \<le> m" "m < 2 ^ (K + 1)"
    unfolding K_def [symmetric] n by simp_all
  with k show ?thesis
    by (rule that)
qed

lemma binade_floor_log:
  assumes "0 < x"
  shows "binade x = \<lfloor>log 2 x\<rfloor>"
proof (cases "1 \<le> x")
  case True
  then have "0 < \<lfloor>x\<rfloor>"
    by simp
  then obtain K :: nat where k: "bitlen \<lfloor>x\<rfloor> = int K + 1"
    and lo: "2 ^ K \<le> \<lfloor>x\<rfloor>" and hi: "\<lfloor>x\<rfloor> < 2 ^ (K + 1)"
    by (rule bitlen_pos_split)
  from lo have "(2::real) ^ K \<le> of_int \<lfloor>x\<rfloor>"
    by (metis of_int_le_iff of_int_numeral of_int_power)
  then have l: "(2::real) ^ K \<le> x"
    by linarith
  from hi have "\<lfloor>x\<rfloor> + 1 \<le> 2 ^ (K + 1)"
    by simp
  then have "(of_int (\<lfloor>x\<rfloor> + 1) :: real) \<le> 2 ^ (K + 1)"
    by (metis of_int_le_iff of_int_numeral of_int_power)
  then have h: "x < 2 ^ (K + 1)"
    by linarith
  have "\<lfloor>log 2 x\<rfloor> = int K"
    using l h assms by (simp add: floor_log_eq_powr_iff powr_realpow powr_add)
  with True k show ?thesis
    by (simp add: binade_def)
next
  case False
  with assms have "1 < 1 / x"
    by simp
  then have "0 < \<lceil>1 / x\<rceil> - 1"
    by (simp add: less_ceiling_iff)
  then obtain K :: nat where k: "bitlen (\<lceil>1 / x\<rceil> - 1) = int K + 1"
    and lo: "2 ^ K \<le> \<lceil>1 / x\<rceil> - 1" and hi: "\<lceil>1 / x\<rceil> - 1 < 2 ^ (K + 1)"
    by (rule bitlen_pos_split)
  from lo have "(2::real) ^ K \<le> of_int (\<lceil>1 / x\<rceil> - 1)"
    by (metis of_int_le_iff of_int_numeral of_int_power)
  then have "(2::real) ^ K < 1 / x"
    by linarith
  then have h: "x < 1 / 2 ^ K"
    using assms by (simp add: field_simps)
  from hi have "\<lceil>1 / x\<rceil> \<le> 2 ^ (K + 1)"
    by simp
  then have "(of_int \<lceil>1 / x\<rceil> :: real) \<le> 2 ^ (K + 1)"
    by (metis of_int_le_iff of_int_numeral of_int_power)
  then have "1 / x \<le> 2 ^ (K + 1)"
    by linarith
  then have l: "1 / 2 ^ (K + 1) \<le> x"
    using assms by (simp add: field_simps)
  have pw: "2 powr (- real n) = 1 / 2 ^ n" for n
  proof -
    have "2 powr (- real n) = inverse (2 powr real n)"
      by (rule powr_minus)
    also have "2 powr real n = (2::real) ^ n"
      by (rule powr_realpow) simp
    finally show ?thesis
      by (simp only: inverse_eq_divide)
  qed
  note p1 = pw [of "K + 1"] and p2 = pw [of K]
  have c1: "real_of_int (- (int K + 1)) = - real (K + 1)"
    and c2: "real_of_int (- (int K + 1) + 1) = - real K"
    by simp_all
  have bnd: "2 powr (- real (K + 1)) \<le> x \<and> x < 2 powr (- real K)"
    unfolding p1 p2 using l h by simp
  have "\<lfloor>log 2 x\<rfloor> = - (int K + 1) \<longleftrightarrow>
      2 powr real_of_int (- (int K + 1)) \<le> x \<and> x < 2 powr real_of_int (- (int K + 1) + 1)"
    by (rule floor_log_eq_powr_iff) (use assms in simp_all)
  then have "\<lfloor>log 2 x\<rfloor> = - (int K + 1)"
    unfolding c1 c2 using bnd by blast
  with False k show ?thesis
    by (simp add: binade_def)
qed

lemma round_double_nonneg: "0 \<le> x \<Longrightarrow> 0 \<le> round_double x"
  by (simp add: round_double_def Let_def py_round_nonneg)

lemma float_mul_nonneg: "0 \<le> f \<Longrightarrow> 0 \<le> float_mul (float_of_nat n) f"
  by (simp add: float_mul_def float_of_nat_def round_double_nonneg)

lemma feats_select_assign:
  "feats (select_rows idx (assign_y X y)) = take_rows idx (del_column X ''y'')"
  "ycol (select_rows idx (assign_y X y)) = map (nth y) idx"
  by (simp_all add: select_rows_def assign_y_def)

lemma class_branch:
  assumes "valid_rng rng" and "0 \<le> h"
  shows "(if floordiv (real_of_int h * 2) 2 \<le> real (nrows (feats (select_rows pos t)))
          then sample_n rng (py_int (floordiv (real_of_int h * 2) 2)) (select_rows pos t)
          else Inr (select_rows pos t))
         = Inr (select_rows (class_draw rng (nat h) pos) t)"
proof -
  have fd: "floordiv (real_of_int h * 2) 2 = of_int h"
    by (simp add: floordiv_def)
  have pi: "py_int (of_int h) = h"
    using assms(2) by (simp add: py_int_def)
  have n: "nrows (feats (select_rows pos t)) = length pos"
    by (simp add: select_rows_def)
  show ?thesis
  proof (cases "nat h \<le> length pos")
    case True
    with assms(2) have le: "real_of_int h \<le> real (length pos)"
      by linarith
    from True assms(1) have "\<forall>i \<in> set (rng (length pos) (nat h)). i < length pos"
      by (simp add: valid_rng_def)
    then have "select_rows (rng (length pos) (nat h)) (select_rows pos t)
        = select_rows (map (nth pos) (rng (length pos) (nat h))) t"
      by (rule select_rows_select_rows)
    moreover have "\<not> int (length pos) < h"
      using True assms(2) by linarith
    ultimately show ?thesis
      using True le assms(2) by (simp add: fd pi n sample_n_def class_draw_def)
  next
    case False
    with assms(2) have "\<not> real_of_int h \<le> real (length pos)"
      by linarith
    with False show ?thesis
      by (simp add: fd n class_draw_def)
  qed
qed

lemma floordiv_2: "floordiv x 2 = floordiv (real_of_int \<lfloor>x / 2\<rfloor> * 2) 2"
  by (simp add: floordiv_def)

lemma imbalanced_subsample_rows:
  assumes "valid_rng rng" and "0 \<le> f" and "f < 1"
  shows "imbalanced_subsample rng X y f =
     Inr (take_rows (drawn_rows rng (nrows X) f y) (del_column X ''y''),
          map (nth y) (drawn_rows rng (nrows X) f y))"
proof -
  define h where "h = \<lfloor>float_mul (float_of_nat (nrows X)) f / 2\<rfloor>"
  have h0: "0 \<le> h"
    using float_mul_nonneg [OF assms(2), of "nrows X"] by (simp add: h_def)
  let ?t = "assign_y X y"
  have n: "nrows (feats ?t) = nrows X" and yc: "ycol ?t = y"
    by (simp_all add: assign_y_def)
  have fd: "floordiv (float_mul (float_of_nat (nrows X)) f) 2 = floordiv (real_of_int h * 2) 2"
    unfolding h_def by (rule floordiv_2)
  let ?num = "float_mul (float_of_nat (nrows (feats ?t))) f"
  have br: "(if floordiv ?num 2 \<le> real (nrows (feats (mask_y b ?t)))
             then sample_n rng (py_int (floordiv ?num 2)) (mask_y b ?t)
             else Inr (mask_y b ?t))
            = Inr (select_rows (class_draw rng (nat h) (class_rows b (nrows X) y)) ?t)" for b
    unfolding mask_y_def n yc fd by (rule class_branch [OF assms(1) h0])
  have "imbalanced_subsample rng X y f =
     Inr (feats (select_rows (drawn_rows rng (nrows X) f y) ?t),
          ycol (select_rows (drawn_rows rng (nrows X) f y) ?t))"
    unfolding imbalanced_subsample_def Let_def br
    using assms(3) by (simp add: append_rows_select_rows drawn_rows_def h_def)
  then show ?thesis
    by (simp add: feats_select_assign)
qed

lemma rand_subset_rows:
  assumes "valid_rng rng" and "0 \<le> f" and "f < 1"
  shows "rand_subset rng X y f =
     Inr (take_rows (rng (nrows X) (nat (py_round (f * real (nrows X))))) (del_column X ''y''),
          map (nth y) (rng (nrows X) (nat (py_round (f * real (nrows X))))))"
proof -
  let ?k = "py_round (f * real (nrows X))"
  have "0 \<le> f * real (nrows X)"
    using assms(2) by simp
  then have k0: "0 \<le> ?k"
    by (rule py_round_nonneg)
  have "f * real (nrows X) \<le> 1 * real (nrows X)"
    using assms(3) by (intro mult_right_mono) simp_all
  then have "?k \<le> int (nrows X)"
    by (simp add: py_round_le)
  with k0 have "sample_frac rng f (assign_y X y) =
      Inr (select_rows (rng (nrows X) (nat ?k)) (assign_y X y))"
    by (simp add: sample_frac_def sample_n_def assign_y_def)
  with assms(3) show ?thesis
    by (simp add: rand_subset_def Let_def feats_select_assign)
qed

lemma drawn_rows_props:
  assumes "valid_rng rng"
  shows "distinct (drawn_rows rng n f y)"
    and "\<forall>i \<in> set (drawn_rows rng n f y). i < n"
proof -
  let ?h = "nat \<lfloor>float_mul (float_of_nat n) f / 2\<rfloor>"
  let ?T = "class_draw rng ?h (class_rows True n y)"
  let ?F = "class_draw rng ?h (class_rows False n y)"
  have T: "set ?T \<subseteq> set (class_rows True n y)" and F: "set ?F \<subseteq> set (class_rows False n y)"
    using assms by (simp_all add: class_draw_props class_rows_props)
  have "set (class_rows True n y) \<inter> set (class_rows False n y) = {}"
    by (auto simp: class_rows_def)
  with T F have "set ?T \<inter> set ?F = {}"
    by blast
  moreover have "distinct ?T" "distinct ?F"
    using assms by (simp_all add: class_draw_props class_rows_props)
  ultimately show "distinct (drawn_rows rng n f y)"
    by (simp add: drawn_rows_def)
  show "\<forall>i \<in> set (drawn_rows rng n f y). i < n"
    using T F class_rows_props(2) by (fastforce simp: drawn_rows_def)
qed

lemma map_const_on:
  "\<forall>x \<in> set xs. g x = c \<Longrightarrow> map g xs = replicate (length xs) c"
  by (induction xs) auto

lemma drawn_labels:
  assumes "valid_rng rng"
  shows "map (nth y) (drawn_rows rng (length y) f y) =
     replicate (min (count_list y True) (nat \<lfloor>float_mul (float_of_nat (length y)) f / 2\<rfloor>)) True
     @ replicate (min (count_list y False) (nat \<lfloor>float_mul (float_of_nat (length y)) f / 2\<rfloor>)) False"
proof -
  let ?h = "nat \<lfloor>float_mul (float_of_nat (length y)) f / 2\<rfloor>"
  have part: "map (nth y) (class_draw rng ?h (class_rows b (length y) y)) =
      replicate (min (count_list y b) ?h) b" for b
  proof -
    let ?d = "class_draw rng ?h (class_rows b (length y) y)"
    have "set ?d \<subseteq> set (class_rows b (length y) y)"
      using assms by (simp add: class_draw_props class_rows_props)
    then have "\<forall>i \<in> set ?d. y ! i = b"
      using class_rows_props(2) by blast
    then have "map (nth y) ?d = replicate (length ?d) b"
      by (rule map_const_on)
    moreover have "length ?d = min (count_list y b) ?h"
      using assms by (simp add: class_draw_props class_rows_props length_class_rows)
    ultimately show ?thesis
      by simp
  qed
  show ?thesis
    by (simp only: drawn_rows_def map_append part)
qed

lemma count_list_replicate: "count_list (replicate n b) c = (if b = c then n else 0)"
  by (induction n) auto

text \<open>
  C4 (amended). For a label vector co-indexed with \<open>X\<close> and a fraction \<open>0 < f < 1\<close>,
  \<open>imbalanced_subsample\<close> returns, without error, the rows of \<open>X\<close> and the labels of \<open>y\<close>
  at one list of distinct positions, of which exactly \<open>min p h\<close> are labelled true and
  \<open>min q h\<close> are labelled false. Here \<open>p\<close> and \<open>q\<close> count the true and the false labels of
  the input, and \<open>h = \<lfloor>fl(n f) / 2\<rfloor>\<close>, where \<open>fl(n f)\<close> is the product of the row count and the
  fraction rounded to a double, as the code computes it. With \<open>f = 1/2\<close> and 1000 rows, 100
  of them positive, that is 100 and 250.
\<close>

theorem imbalanced_subsample_counts:
  assumes "valid_rng rng" and "length y = nrows X" and "0 < f" and "f < 1"
  shows "\<exists>idx. imbalanced_subsample rng X y f =
          Inr (take_rows idx (del_column X ''y''), map (nth y) idx)
      \<and> distinct idx \<and> (\<forall>i \<in> set idx. i < nrows X)
      \<and> count_list (map (nth y) idx) True =
          min (count_list y True) (nat \<lfloor>float_mul (float_of_nat (nrows X)) f / 2\<rfloor>)
      \<and> count_list (map (nth y) idx) False =
          min (count_list y False) (nat \<lfloor>float_mul (float_of_nat (nrows X)) f / 2\<rfloor>)"
proof -
  let ?idx = "drawn_rows rng (nrows X) f y"
  let ?h = "nat \<lfloor>float_mul (float_of_nat (nrows X)) f / 2\<rfloor>"
  from assms have res: "imbalanced_subsample rng X y f =
      Inr (take_rows ?idx (del_column X ''y''), map (nth y) ?idx)"
    by (simp add: imbalanced_subsample_rows)
  from assms(1) have lab: "map (nth y) ?idx =
     replicate (min (count_list y True) ?h) True @ replicate (min (count_list y False) ?h) False"
    using drawn_labels [of rng y f] assms(2) by simp
  have "count_list (map (nth y) ?idx) True = min (count_list y True) ?h"
    and "count_list (map (nth y) ?idx) False = min (count_list y False) ?h"
    unfolding lab by (simp_all add: count_list_replicate)
  moreover have "distinct ?idx" and "\<forall>i \<in> set ?idx. i < nrows X"
    using drawn_rows_props [OF assms(1), of "nrows X" f y] by simp_all
  ultimately show ?thesis
    using res by blast
qed

theorem imbalanced_subsample_counts_witness:
  "valid_rng rev_rows
   \<and> length (replicate 100 True @ replicate 900 False)
       = nrows \<lparr>nrows = 1000, cols = [(''CRSElapsedTime'', replicate 1000 (90 :: real))]\<rparr>
   \<and> (0 :: real) < 1 / 2 \<and> (1 / 2 :: real) < 1
   \<and> nat \<lfloor>float_mul (float_of_nat 1000) (1 / 2) / 2\<rfloor> = 250
   \<and> (\<exists>idx. imbalanced_subsample rev_rows
                \<lparr>nrows = 1000, cols = [(''CRSElapsedTime'', replicate 1000 (90 :: real))]\<rparr>
                (replicate 100 True @ replicate 900 False) (1 / 2)
              = Inr (take_rows idx
                       (del_column \<lparr>nrows = 1000, cols = [(''CRSElapsedTime'', replicate 1000 90)]\<rparr> ''y''),
                     map (nth (replicate 100 True @ replicate 900 False)) idx)
        \<and> distinct idx
        \<and> count_list (map (nth (replicate 100 True @ replicate 900 False)) idx) True = 100
        \<and> count_list (map (nth (replicate 100 True @ replicate 900 False)) idx) False = 250)
   \<and> imbalanced_subsample rev_rows
        \<lparr>nrows = 8, cols = [(''Month'', [1, 2, 3, 4, 5, 6, 7, 8 :: real])]\<rparr>
        [False, False, False, True, False, False, False, False] (1 / 2)
      = Inr (\<lparr>nrows = 3, cols = [(''Month'', [4, 8, 7])]\<rparr>, [True, False, False])"
proof -
  let ?X = "\<lparr>nrows = 1000, cols = [(''CRSElapsedTime'', replicate 1000 (90 :: real))]\<rparr>"
  let ?y = "replicate 100 True @ replicate 900 False"
  have h: "nat \<lfloor>float_mul (float_of_nat 1000) (1 / 2) / 2\<rfloor> = 250"
    by code_simp
  have len: "length ?y = nrows ?X"
    by simp
  have f: "(0 :: real) < 1 / 2" "(1 / 2 :: real) < 1"
    by simp_all
  have small: "imbalanced_subsample rev_rows
        \<lparr>nrows = 8, cols = [(''Month'', [1, 2, 3, 4, 5, 6, 7, 8 :: real])]\<rparr>
        [False, False, False, True, False, False, False, False] (1 / 2)
      = Inr (\<lparr>nrows = 3, cols = [(''Month'', [4, 8, 7])]\<rparr>, [True, False, False])"
    by code_simp
  from imbalanced_subsample_counts [OF valid_rng_rev_rows len f]
  obtain idx where "imbalanced_subsample rev_rows ?X ?y (1 / 2) =
          Inr (take_rows idx (del_column ?X ''y''), map (nth ?y) idx)"
    and "distinct idx"
    and "count_list (map (nth ?y) idx) True =
          min (count_list ?y True) (nat \<lfloor>float_mul (float_of_nat (nrows ?X)) (1 / 2) / 2\<rfloor>)"
    and "count_list (map (nth ?y) idx) False =
          min (count_list ?y False) (nat \<lfloor>float_mul (float_of_nat (nrows ?X)) (1 / 2) / 2\<rfloor>)"
    by blast
  then have "\<exists>idx. imbalanced_subsample rev_rows ?X ?y (1 / 2) =
          Inr (take_rows idx (del_column ?X ''y''), map (nth ?y) idx)
        \<and> distinct idx
        \<and> count_list (map (nth ?y) idx) True = 100
        \<and> count_list (map (nth ?y) idx) False = 250"
    by (intro exI [of _ idx]) (simp add: h count_list_replicate)
  with h len f small show ?thesis
    using valid_rng_rev_rows by blast
qed

text \<open>
  C4 as stated fails, whichever way the fraction is read. With 20 rows and the double
  nearest to 0.3, the exact \<open>\<lfloor>n f / 2\<rfloor>\<close> is 2 and the code draws 3 rows of each class, since
  the product rounds up to 6. With 100 rows and the double nearest to 0.58, the product
  rounds below 58 and the code draws 28 rows of each class, where \<open>\<lfloor>100 \<cdot> 0.58 / 2\<rfloor>\<close> is 29.
\<close>

theorem imbalanced_subsample_counts_counterexample:
  "imbalanced_subsample rev_rows
     \<lparr>nrows = 20, cols = [(''Month'', [1, 2, 3, 4, 5, 6, 7, 8, 9, 10, 11, 12, 1, 2, 3, 4, 5, 6, 7, 8 :: real])]\<rparr>
     (replicate 10 True @ replicate 10 False) (5404319552844595 / 18014398509481984)
     = Inr (\<lparr>nrows = 6, cols = [(''Month'', [10, 9, 8, 8, 7, 6])]\<rparr>,
            [True, True, True, False, False, False])
   \<and> min (count_list (replicate 10 True @ replicate 10 False) True)
         (nat \<lfloor>real 20 * (5404319552844595 / 18014398509481984) / 2\<rfloor>) = 2
   \<and> label_counts (imbalanced_subsample rev_rows
         \<lparr>nrows = 100, cols = [(''CRSElapsedTime'', replicate 100 (90 :: real))]\<rparr>
         (replicate 40 True @ replicate 60 False) (5224175567749775 / 9007199254740992)) = Some (28, 28)
   \<and> min (count_list (replicate 40 True @ replicate 60 False) True)
         (nat \<lfloor>real 100 * (58 / 100) / 2\<rfloor>) = 29"
  by code_simp

text \<open>
  C9. For \<open>0 < f < 1\<close> the labels that \<open>imbalanced_subsample\<close> returns are a run of
  true followed by a run of false: every positive row comes before every negative row.
\<close>

theorem imbalanced_subsample_positives_first:
  assumes "valid_rng rng" and "length y = nrows X" and "0 < f" and "f < 1"
  shows "\<exists>Xs ys k m. imbalanced_subsample rng X y f = Inr (Xs, ys)
      \<and> ys = replicate k True @ replicate m False"
proof -
  let ?idx = "drawn_rows rng (nrows X) f y"
  from assms have "imbalanced_subsample rng X y f =
      Inr (take_rows ?idx (del_column X ''y''), map (nth y) ?idx)"
    by (simp add: imbalanced_subsample_rows)
  moreover from assms(1) have "\<exists>k m. map (nth y) ?idx = replicate k True @ replicate m False"
    using drawn_labels [of rng y f] assms(2) by auto
  ultimately show ?thesis
    by auto
qed

theorem imbalanced_subsample_positives_first_witness:
  "valid_rng rev_rows
   \<and> length [False, True, False, True, False] = nrows \<lparr>nrows = 5, cols = [(''Month'', [1, 2, 3, 4, 5 :: real])]\<rparr>
   \<and> (0 :: real) < 4 / 5 \<and> (4 / 5 :: real) < 1
   \<and> imbalanced_subsample rev_rows \<lparr>nrows = 5, cols = [(''Month'', [1, 2, 3, 4, 5 :: real])]\<rparr>
        [False, True, False, True, False] (4 / 5)
      = Inr (\<lparr>nrows = 4, cols = [(''Month'', [4, 2, 5, 3])]\<rparr>, [True, True, False, False])"
proof -
  have ev: "imbalanced_subsample rev_rows \<lparr>nrows = 5, cols = [(''Month'', [1, 2, 3, 4, 5 :: real])]\<rparr>
        [False, True, False, True, False] (4 / 5)
      = Inr (\<lparr>nrows = 4, cols = [(''Month'', [4, 2, 5, 3])]\<rparr>, [True, True, False, False])"
    by code_simp
  from imbalanced_subsample_positives_first
    [of rev_rows "[False, True, False, True, False]"
        "\<lparr>nrows = 5, cols = [(''Month'', [1, 2, 3, 4, 5 :: real])]\<rparr>" "4 / 5"]
  show ?thesis
    by (simp add: valid_rng_rev_rows ev)
qed

lemma take_rows_all:
  assumes "wf_frame X"
  shows "take_rows [0..<nrows X] X = X"
proof -
  have "map (\<lambda>p. (fst p, map (nth (snd p)) [0..<nrows X])) (cols X) = map (\<lambda>p. p) (cols X)"
  proof (rule map_cong [OF refl])
    fix p assume "p \<in> set (cols X)"
    with assms have "length (snd p) = nrows X"
      by (simp add: wf_frame_def list_all_iff)
    then have "map (nth (snd p)) [0..<nrows X] = snd p"
      by (metis map_nth)
    then show "(fst p, map (nth (snd p)) [0..<nrows X]) = p"
      by simp
  qed
  then show ?thesis
    by (simp add: take_rows_def)
qed

text \<open>
  C8. For a well-formed frame \<open>X\<close>, a label vector co-indexed with it and a fraction
  \<open>f \<ge> 0\<close>, both \<open>rand_subset\<close> and \<open>imbalanced_subsample\<close> return a frame and a label
  vector that are row-aligned: the same number of rows, and at each position the row of
  \<open>X\<close> and the label of \<open>y\<close> from one and the same input position.
\<close>

theorem subsamples_row_aligned:
  assumes "valid_rng rng" and "wf_frame X" and "length y = nrows X" and "0 \<le> f"
  shows "aligned_subset f X y (rand_subset rng X y f)
       \<and> aligned_subset f X y (imbalanced_subsample rng X y f)"
proof (cases "f < 1")
  case True
  let ?r = "rng (nrows X) (nat (py_round (f * real (nrows X))))"
  let ?d = "drawn_rows rng (nrows X) f y"
  have "f * real (nrows X) \<le> 1 * real (nrows X)"
    using True by (intro mult_right_mono) simp_all
  then have "py_round (f * real (nrows X)) \<le> int (nrows X)"
    by (simp add: py_round_le)
  then have "nat (py_round (f * real (nrows X))) \<le> nrows X"
    by linarith
  with assms(1) have r: "distinct ?r" "\<forall>i \<in> set ?r. i < nrows X"
    by (simp_all add: valid_rng_def)
  have "aligned_subset f X y (rand_subset rng X y f)"
    unfolding aligned_subset_def rand_subset_rows [OF assms(1,4) True]
    using r True by (intro exI [of _ ?r] exI conjI refl) simp_all
  moreover have "aligned_subset f X y (imbalanced_subsample rng X y f)"
    unfolding aligned_subset_def imbalanced_subsample_rows [OF assms(1,4) True]
    using drawn_rows_props [OF assms(1), of "nrows X" f y] True
    by (intro exI [of _ ?d] exI conjI refl) simp_all
  ultimately show ?thesis ..
next
  case False
  have ys: "map (nth y) [0..<nrows X] = y"
    using assms(3) by (metis map_nth)
  have "aligned_subset f X y (Inr (X, y))"
    unfolding aligned_subset_def
    using False assms(2,3)
    by (intro exI [of _ "[0..<nrows X]"] exI conjI refl) (simp_all add: take_rows_all ys)
  with False show ?thesis
    by (simp add: rand_subset_def imbalanced_subsample_def)
qed

theorem subsamples_row_aligned_witness:
  "valid_rng rev_rows
   \<and> wf_frame \<lparr>nrows = 4, cols = [(''Month'', [1, 2, 3, 4 :: real]), (''y'', [7, 7, 7, 7])]\<rparr>
   \<and> length [True, False, False, False] = nrows \<lparr>nrows = 4, cols = [(''Month'', [1, 2, 3, 4 :: real]), (''y'', [7, 7, 7, 7])]\<rparr>
   \<and> (0 :: real) \<le> 3 / 4
   \<and> aligned_subset (3 / 4) \<lparr>nrows = 4, cols = [(''Month'', [1, 2, 3, 4 :: real]), (''y'', [7, 7, 7, 7])]\<rparr>
        [True, False, False, False]
        (rand_subset rev_rows \<lparr>nrows = 4, cols = [(''Month'', [1, 2, 3, 4 :: real]), (''y'', [7, 7, 7, 7])]\<rparr>
           [True, False, False, False] (3 / 4))
   \<and> rand_subset rev_rows \<lparr>nrows = 4, cols = [(''Month'', [1, 2, 3, 4 :: real]), (''y'', [7, 7, 7, 7])]\<rparr>
        [True, False, False, False] (3 / 4)
      = Inr (\<lparr>nrows = 3, cols = [(''Month'', [4, 3, 2])]\<rparr>, [False, False, False])
   \<and> imbalanced_subsample rev_rows \<lparr>nrows = 4, cols = [(''Month'', [1, 2, 3, 4 :: real]), (''y'', [7, 7, 7, 7])]\<rparr>
        [True, False, False, False] (3 / 4)
      = Inr (\<lparr>nrows = 2, cols = [(''Month'', [1, 4])]\<rparr>, [True, False])"
proof -
  let ?X = "\<lparr>nrows = 4, cols = [(''Month'', [1, 2, 3, 4 :: real]), (''y'', [7, 7, 7, 7])]\<rparr>"
  have wf: "wf_frame ?X"
    by (simp add: wf_frame_def columns_def)
  have len: "length [True, False, False, False] = nrows ?X"
    by simp
  have ev1: "rand_subset rev_rows ?X [True, False, False, False] (3 / 4)
      = Inr (\<lparr>nrows = 3, cols = [(''Month'', [4, 3, 2])]\<rparr>, [False, False, False])"
    by code_simp
  have ev2: "imbalanced_subsample rev_rows ?X [True, False, False, False] (3 / 4)
      = Inr (\<lparr>nrows = 2, cols = [(''Month'', [1, 4])]\<rparr>, [True, False])"
    by code_simp
  from subsamples_row_aligned [OF valid_rng_rev_rows wf len, of "3 / 4"]
  have "aligned_subset (3 / 4) ?X [True, False, False, False]
          (rand_subset rev_rows ?X [True, False, False, False] (3 / 4))"
    by simp
  with wf ev1 ev2 show ?thesis
    by (simp add: valid_rng_rev_rows)
qed


subsection \<open>AirportSelector\<close>

lemma map_fst_groupby_size: "map fst (groupby_size ks) = sort (remdups ks)"
  by (simp add: groupby_size_def comp_def)

lemma map_of_groupby_size:
  "map_of (groupby_size ks) k = (if k \<in> set ks then Some (count_list ks k) else None)"
proof -
  have "map_of (map (\<lambda>k. (k, g k)) xs) k = (if k \<in> set xs then Some (g k) else None)"
    for xs :: "string list" and g :: "string \<Rightarrow> nat"
    by (induction xs) auto
  then show ?thesis
    by (simp add: groupby_size_def)
qed

lemma sorted_remdups_unique:
  fixes xs ys :: "string list"
  assumes "set xs = set ys"
  shows "sort (remdups xs) = sort (remdups ys)"
proof (rule sorted_distinct_set_unique)
  show "sorted (sort (remdups xs))" "sorted (sort (remdups ys))"
    by simp_all
  show "distinct (sort (remdups xs))" "distinct (sort (remdups ys))"
    by simp_all
  show "set (sort (remdups xs)) = set (sort (remdups ys))"
    using assms by simp
qed

text \<open>The labels of the summed series: every airport, once.\<close>

lemma series_add_labels:
  "distinct (map fst (series_add (groupby_size ds) (groupby_size os)))"
  "set (map fst (series_add (groupby_size ds) (groupby_size os))) = set os \<union> set ds"
proof -
  let ?a = "groupby_size ds" and ?d = "groupby_size os"
  let ?idx = "if map fst ?a = map fst ?d then map fst ?a
              else sort (remdups (map fst ?a @ map fst ?d))"
  have lab: "map fst (series_add ?a ?d) = ?idx"
    by (simp add: series_add_def Let_def comp_def)
  show "distinct (map fst (series_add ?a ?d))"
    unfolding lab by (simp add: map_fst_groupby_size)
  show "set (map fst (series_add ?a ?d)) = set os \<union> set ds"
  proof (cases "map fst ?a = map fst ?d")
    case True
    then have "set (map fst ?a) = set (map fst ?d)"
      by simp
    then have "set ds = set os"
      by (simp add: map_fst_groupby_size)
    with True show ?thesis
      unfolding lab by (simp add: map_fst_groupby_size)
  next
    case False
    then show ?thesis
      unfolding lab by (auto simp: map_fst_groupby_size)
  qed
qed

lemma labels_sort_values_desc:
  assumes "sorts_descending srt"
  shows "mset (map fst (sort_values_desc srt s)) = mset (map fst s)"
proof -
  have split: "mset (map fst (notna s)) + mset (map fst (filter (\<lambda>p. snd p = None) s)) = mset (map fst s)"
    by (induction s rule: notna.induct) auto
  from assms have "mset (srt (notna s)) = mset (notna s)"
    by (simp add: sorts_descending_def)
  then have "mset (map fst (srt (notna s))) = mset (map fst (notna s))"
    by (metis mset_map)
  with split show ?thesis
    by (simp add: sort_values_desc_def comp_def)
qed

lemma length_airports: "length (airports df) = card (set (map Origin df) \<union> set (map Dest df))"
  by (simp add: airports_def length_remdups_card_conv)

text \<open>
  C5 (amended). When the requested count \<open>K\<close> is greater than the number of distinct
  airports of the table, \<open>airport_select\<close> does not fail: it returns every airport of the
  table once, a list shorter than \<open>K\<close>.
\<close>

theorem airport_select_returns_all:
  assumes "sorts_descending srt" and "length (airports df) < K"
  shows "length (airport_select srt df K) = length (airports df)
       \<and> length (airport_select srt df K) < K
       \<and> distinct (airport_select srt df K)
       \<and> set (airport_select srt df K) = set (airports df)"
proof -
  let ?fl = "series_add (groupby_size (map Dest df)) (groupby_size (map Origin df))"
  let ?out = "map fst (sort_values_desc srt ?fl)"
  have m: "mset ?out = mset (map fst ?fl)"
    using assms(1) by (rule labels_sort_values_desc)
  have d: "distinct ?out"
    using m series_add_labels(1) [of "map Dest df" "map Origin df"]
    by (metis mset_eq_imp_distinct_iff)
  have s: "set ?out = set (airports df)"
    using mset_eq_setD [OF m] series_add_labels(2) [of "map Dest df" "map Origin df"]
    by (simp add: airports_def)
  have l: "length ?out = length (airports df)"
    using d s by (metis airports_def distinct_card distinct_remdups)
  have "airport_select srt df K = take K ?out"
    by (simp add: airport_select_def Let_def take_map)
  with l assms(2) have "airport_select srt df K = ?out"
    by simp
  with d s l assms(2) show ?thesis
    by simp
qed

lemma notna_all_present:
  "notna (map (\<lambda>k. (k, Some (g k))) ks) = map (\<lambda>k. (k, g k)) ks"
  "filter (\<lambda>p. snd p = None) (map (\<lambda>k. (k, Some (g k))) ks) = []"
  by (induction ks) auto

lemma series_add_two_sided:
  assumes "set (map Origin df) = set (map Dest df)"
  shows "series_add (groupby_size (map Dest df)) (groupby_size (map Origin df))
       = map (\<lambda>k. (k, Some (occurrences df k))) (sort (remdups (map Dest df)))"
proof -
  let ?ds = "map Dest df" and ?os = "map Origin df"
  have same: "sort (remdups ?os) = sort (remdups ?ds)"
    using assms by (rule sorted_remdups_unique)
  have "(case (map_of (groupby_size ?ds) k, map_of (groupby_size ?os) k) of
           (Some x, Some y) \<Rightarrow> Some (x + y)
         | _ \<Rightarrow> None) = Some (occurrences df k)"
    if "k \<in> set (sort (remdups ?ds))" for k
    using that assms by (simp add: map_of_groupby_size occurrences_def)
  then show ?thesis
    by (simp add: series_add_def Let_def map_fst_groupby_size same)
qed

lemma mset_map_cong: "mset xs = mset ys \<Longrightarrow> mset (map f xs) = mset (map f ys)"
  by simp

text \<open>
  On a table in which every airport occurs both as origin and as destination, and for \<open>K\<close>
  at most the number of distinct airports, \<open>airport_select\<close> returns \<open>K\<close> distinct airports
  of the table in descending order of their combined occurrence count, and no airport left
  out has a greater count than one returned.
\<close>

lemma airport_select_two_sided:
  assumes "sorts_descending srt"
    and "set (map Origin df) = set (map Dest df)"
    and "K \<le> length (airports df)"
  shows "length (airport_select srt df K) = K
       \<and> distinct (airport_select srt df K)
       \<and> set (airport_select srt df K) \<subseteq> set (airports df)
       \<and> sorted_wrt (\<lambda>a b. occurrences df b \<le> occurrences df a) (airport_select srt df K)
       \<and> (\<forall>a \<in> set (airport_select srt df K).
            \<forall>b \<in> set (airports df) - set (airport_select srt df K).
              occurrences df b \<le> occurrences df a)"
proof -
  let ?ks = "sort (remdups (map Dest df))"
  let ?L = "map (\<lambda>k. (k, occurrences df k)) ?ks"
  let ?S = "srt ?L"
  let ?N = "map fst ?S"
  let ?R = "airport_select srt df K"
  have R: "?R = take K ?N"
    by (simp add: airport_select_def Let_def series_add_two_sided [OF assms(2)]
        sort_values_desc_def notna_all_present take_map comp_def)
  from assms(1) have mS: "mset ?S = mset ?L"
    and sS: "sorted_wrt (\<lambda>a b. snd b \<le> snd a) ?S"
    by (simp_all add: sorts_descending_def)
  from mS have "mset ?N = mset (map fst ?L)"
    by (rule mset_map_cong)
  moreover have "map fst ?L = ?ks"
    by (simp add: comp_def)
  ultimately have mN: "mset ?N = mset ?ks"
    by (simp only:)
  have dN: "distinct ?N"
    using mN by (metis mset_eq_imp_distinct_iff distinct_sort distinct_remdups)
  have setN: "set ?N = set (airports df)"
    using mset_eq_setD [OF mN] assms(2) by (simp add: airports_def)
  have lenN: "length ?N = length (airports df)"
    using dN setN by (metis airports_def distinct_card distinct_remdups)
  have occ: "snd p = occurrences df (fst p)" if "p \<in> set ?S" for p
  proof -
    from that mset_eq_setD [OF mS] have "p \<in> set ?L"
      by simp
    then show ?thesis
      by auto
  qed
  have "sorted_wrt (\<lambda>a b. occurrences df (fst b) \<le> occurrences df (fst a)) ?S"
    using sS by (rule sorted_wrt_mono_rel [rotated]) (simp add: occ)
  then have sN: "sorted_wrt (\<lambda>a b. occurrences df b \<le> occurrences df a) ?N"
    by (simp add: sorted_wrt_map)
  then have "sorted_wrt (\<lambda>a b. occurrences df b \<le> occurrences df a) (take K ?N @ drop K ?N)"
    by simp
  then have sT: "sorted_wrt (\<lambda>a b. occurrences df b \<le> occurrences df a) (take K ?N)"
    and cross: "\<forall>a \<in> set (take K ?N). \<forall>b \<in> set (drop K ?N). occurrences df b \<le> occurrences df a"
    unfolding sorted_wrt_append by blast+
  have "set ?N = set (take K ?N) \<union> set (drop K ?N)"
    by (metis append_take_drop_id set_append)
  with setN have rest: "set (airports df) - set (take K ?N) \<subseteq> set (drop K ?N)"
    by blast
  have "length (take K ?N) = K"
    using assms(3) lenN by simp
  moreover have "distinct (take K ?N)"
    using dN by (rule distinct_take)
  moreover have "set (take K ?N) \<subseteq> set (airports df)"
    using setN set_take_subset [of K ?N] by blast
  moreover have "\<forall>a \<in> set (take K ?N). \<forall>b \<in> set (airports df) - set (take K ?N).
      occurrences df b \<le> occurrences df a"
    using cross rest by blast
  ultimately show ?thesis
    unfolding R using sT by blast
qed

lemma sorts_descending_stable_descending_sort: "sorts_descending stable_descending_sort"
proof -
  have "sorted_wrt (\<lambda>a b. snd b \<le> snd a) (rev (sort_key snd (rev xs)))" for xs :: "(string \<times> nat) list"
    using sorted_sort_key [of snd "rev xs"] by (simp add: sorted_wrt_rev sorted_map)
  then show ?thesis
    by (simp add: sorts_descending_def stable_descending_sort_def)
qed

lemma airport_select_two_sided_example:
  "sorts_descending stable_descending_sort
   \<and> set (map Origin (replicate 15 \<lparr>Origin = ''X'', Dest = ''Y''\<rparr> @ replicate 15 \<lparr>Origin = ''Y'', Dest = ''X''\<rparr>
      @ replicate 10 \<lparr>Origin = ''X'', Dest = ''Z''\<rparr> @ replicate 10 \<lparr>Origin = ''Z'', Dest = ''X''\<rparr>))
     = set (map Dest (replicate 15 \<lparr>Origin = ''X'', Dest = ''Y''\<rparr> @ replicate 15 \<lparr>Origin = ''Y'', Dest = ''X''\<rparr>
      @ replicate 10 \<lparr>Origin = ''X'', Dest = ''Z''\<rparr> @ replicate 10 \<lparr>Origin = ''Z'', Dest = ''X''\<rparr>))
   \<and> occurrences (replicate 15 \<lparr>Origin = ''X'', Dest = ''Y''\<rparr> @ replicate 15 \<lparr>Origin = ''Y'', Dest = ''X''\<rparr>
      @ replicate 10 \<lparr>Origin = ''X'', Dest = ''Z''\<rparr> @ replicate 10 \<lparr>Origin = ''Z'', Dest = ''X''\<rparr>) ''X'' = 50
   \<and> occurrences (replicate 15 \<lparr>Origin = ''X'', Dest = ''Y''\<rparr> @ replicate 15 \<lparr>Origin = ''Y'', Dest = ''X''\<rparr>
      @ replicate 10 \<lparr>Origin = ''X'', Dest = ''Z''\<rparr> @ replicate 10 \<lparr>Origin = ''Z'', Dest = ''X''\<rparr>) ''Y'' = 30
   \<and> airport_select stable_descending_sort (replicate 15 \<lparr>Origin = ''X'', Dest = ''Y''\<rparr> @ replicate 15 \<lparr>Origin = ''Y'', Dest = ''X''\<rparr>
      @ replicate 10 \<lparr>Origin = ''X'', Dest = ''Z''\<rparr> @ replicate 10 \<lparr>Origin = ''Z'', Dest = ''X''\<rparr>) 2
      = [''X'', ''Y'']
   \<and> airport_select stable_descending_sort (replicate 15 \<lparr>Origin = ''X'', Dest = ''Y''\<rparr> @ replicate 15 \<lparr>Origin = ''Y'', Dest = ''X''\<rparr>
      @ replicate 10 \<lparr>Origin = ''X'', Dest = ''Z''\<rparr> @ replicate 10 \<lparr>Origin = ''Z'', Dest = ''X''\<rparr>) 3
      = [''X'', ''Y'', ''Z'']"
proof -
  let ?df = "replicate 15 \<lparr>Origin = ''X'', Dest = ''Y''\<rparr> @ replicate 15 \<lparr>Origin = ''Y'', Dest = ''X''\<rparr>
      @ replicate 10 \<lparr>Origin = ''X'', Dest = ''Z''\<rparr> @ replicate 10 \<lparr>Origin = ''Z'', Dest = ''X''\<rparr>"
  have "set (map Origin ?df) = set (map Dest ?df)"
    by code_simp
  moreover have "occurrences ?df ''X'' = 50"
    by code_simp
  moreover have "occurrences ?df ''Y'' = 30"
    by code_simp
  moreover have "airport_select stable_descending_sort ?df 2 = [''X'', ''Y'']"
    by code_simp
  moreover have "airport_select stable_descending_sort ?df 3 = [''X'', ''Y'', ''Z'']"
    by code_simp
  ultimately show ?thesis
    using sorts_descending_stable_descending_sort by blast
qed

lemma sorts_descending_pair:
  assumes "sorts_descending srt" and "snd q < snd p"
  shows "srt [p, q] = [p, q]"
proof -
  from assms(1) have m: "mset (srt [p, q]) = mset [p, q]"
    and s: "sorted_wrt (\<lambda>a b. snd b \<le> snd a) (srt [p, q])"
    by (simp_all add: sorts_descending_def)
  from m have "length (srt [p, q]) = length [p, q]"
    by (rule mset_eq_length)
  then obtain u v where uv: "srt [p, q] = [u, v]"
    by (cases "srt [p, q]" rule: list.exhaust) (auto simp: length_Suc_conv)
  from m uv have "(u = p \<and> v = q) \<or> (u = q \<and> v = p)"
    by (auto simp: add_eq_conv_ex)
  moreover from s uv have "snd v \<le> snd u"
    by simp
  ultimately show ?thesis
    using assms(2) uv by auto
qed

text \<open>
  C3. The claim does not hold of the code on a table with an airport that occurs on one
  side only. ATL departs three times and never arrives, so its entry in
  \<^verbatim>\<open>arrivals+departures\<close> is NaN and \<^verbatim>\<open>sort_values\<close> puts it last, behind CLT with two
  occurrences: for \<open>K = 2\<close> of the three airports the code returns BOS and CLT, whatever the
  sort does with equal counts, where the two airports of greatest combined count are BOS
  (five) and ATL (three).
\<close>

theorem airport_select_one_sided:
  assumes "sorts_descending srt"
  shows "airport_select srt
     [\<lparr>Origin = ''ATL'', Dest = ''BOS''\<rparr>, \<lparr>Origin = ''ATL'', Dest = ''BOS''\<rparr>,
      \<lparr>Origin = ''ATL'', Dest = ''BOS''\<rparr>, \<lparr>Origin = ''BOS'', Dest = ''CLT''\<rparr>,
      \<lparr>Origin = ''CLT'', Dest = ''BOS''\<rparr>] 2 = [''BOS'', ''CLT'']
   \<and> length (airports
     [\<lparr>Origin = ''ATL'', Dest = ''BOS''\<rparr>, \<lparr>Origin = ''ATL'', Dest = ''BOS''\<rparr>,
      \<lparr>Origin = ''ATL'', Dest = ''BOS''\<rparr>, \<lparr>Origin = ''BOS'', Dest = ''CLT''\<rparr>,
      \<lparr>Origin = ''CLT'', Dest = ''BOS''\<rparr>]) = 3
   \<and> map (occurrences
     [\<lparr>Origin = ''ATL'', Dest = ''BOS''\<rparr>, \<lparr>Origin = ''ATL'', Dest = ''BOS''\<rparr>,
      \<lparr>Origin = ''ATL'', Dest = ''BOS''\<rparr>, \<lparr>Origin = ''BOS'', Dest = ''CLT''\<rparr>,
      \<lparr>Origin = ''CLT'', Dest = ''BOS''\<rparr>]) [''ATL'', ''BOS'', ''CLT''] = [3, 5, 2]"
proof -
  let ?df = "[\<lparr>Origin = ''ATL'', Dest = ''BOS''\<rparr>, \<lparr>Origin = ''ATL'', Dest = ''BOS''\<rparr>,
      \<lparr>Origin = ''ATL'', Dest = ''BOS''\<rparr>, \<lparr>Origin = ''BOS'', Dest = ''CLT''\<rparr>,
      \<lparr>Origin = ''CLT'', Dest = ''BOS''\<rparr>]"
  have fl: "series_add (groupby_size (map Dest ?df)) (groupby_size (map Origin ?df))
      = [(''ATL'', None), (''BOS'', Some 5), (''CLT'', Some 2)]"
    by code_simp
  have sorted: "srt [(''BOS'', 5), (''CLT'', 2)] = [(''BOS'', 5), (''CLT'', 2)]"
    using assms by (rule sorts_descending_pair) simp
  have "airport_select srt ?df 2 =
      map fst (take 2 (sort_values_desc srt [(''ATL'', None), (''BOS'', Some 5), (''CLT'', Some 2)]))"
    unfolding airport_select_def Let_def fl ..
  then have "airport_select srt ?df 2 = [''BOS'', ''CLT'']"
    by (simp add: sort_values_desc_def sorted)
  moreover have "length (airports ?df) = 3"
    by code_simp
  moreover have "map (occurrences ?df) [''ATL'', ''BOS'', ''CLT''] = [3, 5, 2]"
    by code_simp
  ultimately show ?thesis
    by blast
qed

theorem airport_select_one_sided_witness:
  "sorts_descending stable_descending_sort
   \<and> airport_select stable_descending_sort
     [\<lparr>Origin = ''ATL'', Dest = ''BOS''\<rparr>, \<lparr>Origin = ''ATL'', Dest = ''BOS''\<rparr>,
      \<lparr>Origin = ''ATL'', Dest = ''BOS''\<rparr>, \<lparr>Origin = ''BOS'', Dest = ''CLT''\<rparr>,
      \<lparr>Origin = ''CLT'', Dest = ''BOS''\<rparr>] 2 = [''BOS'', ''CLT'']"
  using airport_select_one_sided [OF sorts_descending_stable_descending_sort]
    sorts_descending_stable_descending_sort by blast

theorem airport_select_returns_all_witness:
  "sorts_descending stable_descending_sort
   \<and> length (airports
     [\<lparr>Origin = ''ATL'', Dest = ''BOS''\<rparr>, \<lparr>Origin = ''BOS'', Dest = ''ATL''\<rparr>,
      \<lparr>Origin = ''ATL'', Dest = ''CLT''\<rparr>, \<lparr>Origin = ''CLT'', Dest = ''ATL''\<rparr>,
      \<lparr>Origin = ''ATL'', Dest = ''BOS''\<rparr>, \<lparr>Origin = ''BOS'', Dest = ''ATL''\<rparr>]) < 10
   \<and> length (airport_select stable_descending_sort
     [\<lparr>Origin = ''ATL'', Dest = ''BOS''\<rparr>, \<lparr>Origin = ''BOS'', Dest = ''ATL''\<rparr>,
      \<lparr>Origin = ''ATL'', Dest = ''CLT''\<rparr>, \<lparr>Origin = ''CLT'', Dest = ''ATL''\<rparr>,
      \<lparr>Origin = ''ATL'', Dest = ''BOS''\<rparr>, \<lparr>Origin = ''BOS'', Dest = ''ATL''\<rparr>] 10) = 3"
proof -
  let ?df = "[\<lparr>Origin = ''ATL'', Dest = ''BOS''\<rparr>, \<lparr>Origin = ''BOS'', Dest = ''ATL''\<rparr>,
      \<lparr>Origin = ''ATL'', Dest = ''CLT''\<rparr>, \<lparr>Origin = ''CLT'', Dest = ''ATL''\<rparr>,
      \<lparr>Origin = ''ATL'', Dest = ''BOS''\<rparr>, \<lparr>Origin = ''BOS'', Dest = ''ATL''\<rparr>]"
  have n: "length (airports ?df) = 3"
    by code_simp
  then have h: "length (airports ?df) < 10"
    by simp
  from airport_select_returns_all [OF sorts_descending_stable_descending_sort h] n
  have "length (airport_select stable_descending_sort ?df 10) = 3"
    by simp
  with h show ?thesis
    using sorts_descending_stable_descending_sort by blast
qed

text \<open>
  C5 as stated fails: with three distinct airports and \<open>K = 10\<close> the function returns the
  three airports.
\<close>

theorem airport_select_no_error_counterexample:
  "length (airports
     [\<lparr>Origin = ''ATL'', Dest = ''BOS''\<rparr>, \<lparr>Origin = ''BOS'', Dest = ''ATL''\<rparr>,
      \<lparr>Origin = ''ATL'', Dest = ''CLT''\<rparr>, \<lparr>Origin = ''CLT'', Dest = ''ATL''\<rparr>,
      \<lparr>Origin = ''ATL'', Dest = ''BOS''\<rparr>, \<lparr>Origin = ''BOS'', Dest = ''ATL''\<rparr>]) = 3
   \<and> airport_select stable_descending_sort
     [\<lparr>Origin = ''ATL'', Dest = ''BOS''\<rparr>, \<lparr>Origin = ''BOS'', Dest = ''ATL''\<rparr>,
      \<lparr>Origin = ''ATL'', Dest = ''CLT''\<rparr>, \<lparr>Origin = ''CLT'', Dest = ''ATL''\<rparr>,
      \<lparr>Origin = ''ATL'', Dest = ''BOS''\<rparr>, \<lparr>Origin = ''BOS'', Dest = ''ATL''\<rparr>] 10
      = [''ATL'', ''BOS'', ''CLT'']"
  by code_simp


subsection \<open>Normalizer\<close>

lemma loc_columns_Inr:
  assumes "loc_columns fr keys = Inr out"
  shows "cols out = map (\<lambda>k. (k, case column fr k of Some vs \<Rightarrow> vs | None \<Rightarrow> [])) keys"
    and "set keys \<subseteq> set (columns fr)"
  using assms by (auto simp: loc_columns_def split: if_splits)

lemma column_loc_columns:
  assumes "loc_columns fr keys = Inr out" and "c \<in> set keys"
  shows "column out c = column fr c"
proof -
  from assms have "c \<in> set (columns fr)"
    using loc_columns_Inr(2) by blast
  then obtain vs where vs: "column fr c = Some vs"
    using column_None_iff [of fr c] by auto
  with assms(2) show ?thesis
    by (simp add: column_def [of out] loc_columns_Inr(1) [OF assms(1)] column_reindexed)
qed

lemma column_foldl_setitem:
  "column (foldl (\<lambda>f p. setitem f (fst p) (snd (snd p))) fr (map (\<lambda>k. (k, (k, g k))) ks)) c =
     (if c \<in> set ks then Some (g c) else column fr c)"
  by (induction ks arbitrary: fr) (auto simp: column_setitem)

lemma column_setitem_columns:
  "column (setitem_columns fr ks (map (\<lambda>k. (k, g k)) ks)) c =
     (if c \<in> set ks then Some (g c) else column fr c)"
proof -
  have "zip ks (map (\<lambda>k. (k, g k)) ks) = map (\<lambda>k. (k, (k, g k))) ks"
    by (induction ks) auto
  then show ?thesis
    by (simp add: setitem_columns_def column_foldl_setitem)
qed

lemma check_array_infinite:
  assumes "column fr c = Some ws" and "NegInf \<in> set ws"
  shows "check_array fr = Inl ValueError"
proof -
  from assms(1) have "(c, ws) \<in> set (cols fr)"
    by (simp add: column_def map_of_SomeD)
  with assms(2) have "list_ex (\<lambda>p. PosInf \<in> set (snd p) \<or> NegInf \<in> set (snd p)) (cols fr)"
    by (force simp: list_ex_iff)
  then show ?thesis
    by (simp add: check_array_def)
qed

text \<open>
  C2 (amended). When a column flagged for the log transform holds a zero in the training
  frame, \<open>normalize\<close> fails: with the scaler's ValueError for the infinite cell that the
  logarithm produced, or earlier with KeyError when a listed column is missing. (A negative
  cell does not make it fail, see below.)
\<close>

theorem normalize_zero_fails:
  assumes "c \<in> set X_vars_log"
    and "column X_train c = Some vs"
    and "Fin 0 \<in> set vs"
  shows "normalize X_train X_val X_vars_normalize X_vars_log = Inl KeyError
       \<or> normalize X_train X_val X_vars_normalize X_vars_log = Inl ValueError"
proof -
  have key: "e = KeyError" if "loc_columns fr keys = Inl e"
    for e and fr :: "xfloat frame" and keys
    using that by (simp add: loc_columns_def split: if_splits)
  show ?thesis
  proof (cases "loc_columns X_train X_vars_normalize")
    case (Inl e)
    with key [OF Inl] show ?thesis
      by (simp add: normalize_def)
  next
    case ts: (Inr ts)
    show ?thesis
    proof (cases "loc_columns X_val X_vars_normalize")
      case (Inl e)
      with key [OF Inl] ts show ?thesis
        by (simp add: normalize_def)
    next
      case vs': (Inr vs')
      show ?thesis
      proof (cases "loc_columns ts X_vars_log")
        case (Inl e)
        with key [OF Inl] ts vs' show ?thesis
          by (simp add: normalize_def)
      next
        case tl: (Inr tl)
        show ?thesis
        proof (cases "loc_columns vs' X_vars_log")
          case (Inl e)
          with key [OF Inl] ts vs' tl show ?thesis
            by (simp add: normalize_def)
        next
          case vl: (Inr vl)
          from tl assms(1) have "c \<in> set (columns ts)"
            using loc_columns_Inr(2) by blast
          then have "c \<in> set X_vars_normalize"
            by (simp add: columns_def loc_columns_Inr(1) [OF ts] comp_def)
          with ts assms(2) have cts: "column ts c = Some vs"
            by (simp add: column_loc_columns)
          let ?g = "\<lambda>k. map np_log (case column ts k of Some vs \<Rightarrow> vs | None \<Rightarrow> [])"
          have logged: "cols (map_cells np_log tl) = map (\<lambda>k. (k, ?g k)) X_vars_log"
            by (simp add: map_cells_def loc_columns_Inr(1) [OF tl] comp_def)
          have "column (setitem_columns ts X_vars_log (cols (map_cells np_log tl))) c = Some (map np_log vs)"
            unfolding logged using assms(1) cts by (simp add: column_setitem_columns)
          moreover have "NegInf \<in> set (map np_log vs)"
            using assms(3) by force
          ultimately have "check_array (setitem_columns ts X_vars_log (cols (map_cells np_log tl)))
              = Inl ValueError"
            by (rule check_array_infinite)
          then have "fit_transform (setitem_columns ts X_vars_log (cols (map_cells np_log tl)))
              = Inl ValueError"
            by (simp add: fit_transform_def)
          then have "normalize X_train X_val X_vars_normalize X_vars_log = Inl ValueError"
            by (simp add: normalize_def ts vs' tl vl)
          then show ?thesis ..
        qed
      qed
    qed
  qed
qed

theorem normalize_zero_fails_witness:
  "''CRSElapsedTime'' \<in> set [''CRSElapsedTime'']
   \<and> column \<lparr>nrows = 2, cols = [(''CRSElapsedTime'', [Fin 60, Fin 0])]\<rparr> ''CRSElapsedTime''
       = Some [Fin 60, Fin 0]
   \<and> Fin 0 \<in> set [Fin 60, Fin 0]
   \<and> normalize \<lparr>nrows = 2, cols = [(''CRSElapsedTime'', [Fin 60, Fin 0])]\<rparr>
        \<lparr>nrows = 1, cols = [(''CRSElapsedTime'', [Fin 60])]\<rparr>
        [''CRSElapsedTime''] [''CRSElapsedTime'']
      = Inl ValueError"
  using normalize_zero_fails
    [of "''CRSElapsedTime''" "[''CRSElapsedTime'']"
        "\<lparr>nrows = 2, cols = [(''CRSElapsedTime'', [Fin 60, Fin 0])]\<rparr>" "[Fin 60, Fin 0]"
        "\<lparr>nrows = 1, cols = [(''CRSElapsedTime'', [Fin 60])]\<rparr>" "[''CRSElapsedTime'']"]
  by (simp add: normalize_def loc_columns_def columns_def column_def setitem_columns_def
      setitem_def map_cells_def fit_transform_def transform_def check_array_def
      column_mean_def column_scale_def Let_def)

text \<open>
  C2 as stated fails for a negative value: its logarithm is NaN, which the scaler accepts,
  and \<open>normalize\<close> returns the transformed frames, with NaN in that cell.
\<close>

theorem normalize_negative_counterexample:
  "normalize \<lparr>nrows = 2, cols = [(''CRSElapsedTime'', [Fin 60, Fin (- 5)])]\<rparr>
     \<lparr>nrows = 1, cols = [(''CRSElapsedTime'', [Fin 60])]\<rparr> [''CRSElapsedTime''] [''CRSElapsedTime'']
   = Inr (\<lparr>nrows = 2, cols = [(''CRSElapsedTime'', [Fin 0, NaN])]\<rparr>,
          \<lparr>nrows = 1, cols = [(''CRSElapsedTime'', [Fin 0])]\<rparr>,
          \<lparr>scaler_mean = [Fin (ln 60)], scaler_scale = [Fin 1]\<rparr>)"
  by (simp add: normalize_def loc_columns_def columns_def column_def setitem_columns_def
      setitem_def map_cells_def fit_transform_def transform_def check_array_def
      column_mean_def column_scale_def Let_def)

end
